theory Spec2Isabelle
  imports Main "HOL-Library.AList" "HOL-Library.Word"
begin

section \<open>Values shared by the harness functions\<close>

text \<open>
  The harness (\<^verbatim>\<open>main.go\<close>, and the \<^verbatim>\<open>go test\<close> variant of the same functions)
  drives a cluster through collaborators: the Kubernetes client, two external processes,
  and HTTP probes. Each function is embedded as a HOL function that takes what its
  collaborators answer as an argument and returns, next to its Go result, the list of the
  calls it made (\<open>event\<close>), in order. The variant of \<^verbatim>\<open>RunTests\<close> that runs the test
  cases in goroutines is not embedded.
\<close>

subsection \<open>Errors\<close>

text \<open>
  An \<^verbatim>\<open>error\<close> value is kept by the call that built it: \<open>Ext\<close> is an error a
  collaborator handed back, \<open>Wrap e m\<close> is \<^verbatim>\<open>errors.Wrap(e, m)\<close> (and
  \<^verbatim>\<open>errors.Wrapf\<close> with no operand), \<open>Errorf f as\<close> is \<^verbatim>\<open>fmt.Errorf(f, as...)\<close> with
  its format string and operands unformatted.
\<close>

datatype error = Ext string | Wrap error string | Errorf string "fmtarg list"
  and fmtarg = ArgS string | ArgE error

text \<open>A Go call either returns a value, returns an error, or panics at run time.\<close>

datatype runtime_panic = IndexOutOfRange nat nat

datatype 'a outcome = Return 'a | Fail error | Panic runtime_panic

subsection \<open>Observable calls\<close>

datatype level = LDebug | LInfo | LTest

datatype response = GetErr error | Status string

text \<open>
  \<open>HttpGet t u r\<close>: \<^verbatim>\<open>http.Client{Timeout: t s}.Get(u)\<close> came back with \<open>r\<close>, either a
  request-level error or the status line of the response. \<open>Sleep n\<close>:
  \<^verbatim>\<open>time.Sleep(n * time.Second)\<close>. \<open>Log l f as\<close>: a logging call at level \<open>l\<close>
  (\<open>LTest\<close> for \<^verbatim>\<open>t.Logf\<close> and \<^verbatim>\<open>t.Fatalf\<close>) with format \<open>f\<close> and operands \<open>as\<close>; for
  \<^verbatim>\<open>log.Infoln\<close>, which has no format, \<open>f\<close> is its first operand. \<open>Exec p as\<close>: the
  program \<open>p\<close> was run with arguments \<open>as\<close>. The other calls are those of the Kubernetes
  client, with the namespace they are about.
\<close>

datatype event =
    Exec string "string list"
  | CreateNamespace string
  | DeleteNamespace string
  | ListPods string
  | ListNodes
  | ListServices string
  | HttpGet nat string response
  | Sleep nat
  | Log level string "fmtarg list"

subsection \<open>Go maps and the order of \<^verbatim>\<open>range\<close>\<close>

text \<open>
  A \<^verbatim>\<open>map[string]T\<close> is an association list with distinct keys;
  \<^verbatim>\<open>m[k] = v\<close> is \<open>AList.update k v m\<close>, \<^verbatim>\<open>delete(m, k)\<close> is
  \<open>AList.delete k m\<close>, \<^verbatim>\<open>len(m)\<close> is \<open>length m\<close>.

  Go does not fix the order in which \<^verbatim>\<open>range\<close> visits a map. Where the order can be
  observed, the runtime's choice is an input: a number \<open>c\<close> for each iteration, which
  selects entry \<open>c mod n\<close> of the \<open>n\<close> entries not visited yet (\<open>range_next\<close>).
  \<open>range_order cs xs\<close> is the order in which the choices \<open>cs\<close> visit \<open>xs\<close>; every
  order of the entries is the result of some choices (\<open>range_order_complete\<close> below).
\<close>

definition range_next :: "nat \<Rightarrow> 'a list \<Rightarrow> 'a \<times> 'a list" where
  "range_next c xs =
     (let i = c mod length xs in (xs ! i, take i xs @ drop (Suc i) xs))"

fun range_order :: "nat list \<Rightarrow> 'a list \<Rightarrow> 'a list" where
  "range_order cs [] = []"
| "range_order [] (x # xs) = []"
| "range_order (c # cs) (x # xs) =
     (case range_next c (x # xs) of (y, rest) \<Rightarrow> y # range_order cs rest)"

section \<open>The endpoint health poller: \<^verbatim>\<open>pingEndPoints\<close>\<close>

text \<open>
  \<^verbatim>\<open>
  func pingEndPoints(ep map[string]string) error {

      for {
          for e, u := range ep {
              timeout := time.Duration(5 * time.Second)
              client := http.Client{
                  Timeout: timeout,
              }
              respose, err := client.Get(u)
              if err != nil {
                  log.Debugf("error while making http request %q for service %q, err: %v", u, e, err)
                  time.Sleep(1 * time.Second)
                  continue
              }
              if respose.Status == "200 OK" {
                  log.Debugf("%q is running!", e)
                  delete(ep, e)
              } else {
                  return fmt.Errorf("for service %q got %q", e, respose.Status)
              }
          }
          if len(ep) == 0 {
              break
          }
      }
      return nil
  }
  \<close>
  The probes are an input: the list of what the successive \<^verbatim>\<open>client.Get\<close> calls
  come back with, each paired with the runtime's choice of the entry visited. The
  functions return \<open>None\<close> when the list is used up while the loop is still running.

  \<open>pingEndPoints_range todo ep ps tr\<close> is the inner \<^verbatim>\<open>for ... range ep\<close> with \<open>todo\<close> the
  entries not visited yet, \<open>ep\<close> the map and \<open>tr\<close> the calls made so far. Its first
  result is \<open>Some err\<close> when the body returned \<open>err\<close>, \<open>None\<close> when the range ended.
\<close>

fun pingEndPoints_range ::
  "(string \<times> string) list \<Rightarrow> (string \<times> string) list \<Rightarrow> (nat \<times> response) list \<Rightarrow> event list
    \<Rightarrow> (error option \<times> (string \<times> string) list \<times> (nat \<times> response) list \<times> event list) option"
where
  "pingEndPoints_range [] ep ps tr = Some (None, ep, ps, tr)"
| "pingEndPoints_range (x # xs) ep [] tr = None"
| "pingEndPoints_range (x # xs) ep ((c, r) # ps) tr =
     (case range_next c (x # xs) of ((e, u), todo) \<Rightarrow>
        (case r of
           GetErr err \<Rightarrow>
             pingEndPoints_range todo ep ps
               (tr @ [HttpGet 5 u r,
                      Log LDebug ''error while making http request %q for service %q, err: %v''
                        [ArgS u, ArgS e, ArgE err],
                      Sleep 1])
         | Status s \<Rightarrow>
             if s = ''200 OK''
             then pingEndPoints_range todo (AList.delete e ep) ps
                    (tr @ [HttpGet 5 u r, Log LDebug ''%q is running!'' [ArgS e]])
             else Some (Some (Errorf ''for service %q got %q'' [ArgS e, ArgS s]),
                        ep, ps, tr @ [HttpGet 5 u r])))"

lemma pingEndPoints_range_keys:
  "pingEndPoints_range todo ep ps tr = Some (res, ep', ps', tr') \<Longrightarrow> set ep' \<subseteq> set ep"
proof (induction todo ep ps tr rule: pingEndPoints_range.induct)
  case (3 x xs ep c r ps tr)
  obtain e u todo where nx: "range_next c (x # xs) = ((e, u), todo)"
    by (metis surj_pair)
  show ?case
  proof (cases r)
    case (GetErr err)
    with 3 nx show ?thesis by simp
  next
    case (Status s)
    show ?thesis
    proof (cases "s = ''200 OK''")
      case True
      with 3 nx Status have "set ep' \<subseteq> set (AList.delete e ep)" by simp
      then show ?thesis by (auto simp: AList.delete_eq)
    next
      case False
      with 3 nx Status show ?thesis by simp
    qed
  qed
qed simp_all

lemma pingEndPoints_range_tape:
  "pingEndPoints_range todo ep ps tr = Some (None, ep', ps', tr') \<Longrightarrow> todo \<noteq> []
    \<Longrightarrow> length ps' < length ps"
proof (induction todo ep ps tr rule: pingEndPoints_range.induct)
  case (3 x xs ep c r ps tr)
  obtain e u todo where nx: "range_next c (x # xs) = ((e, u), todo)"
    by (metis surj_pair)
  have step: "\<And>ep0 tr0. pingEndPoints_range todo ep0 ps tr0 = Some (None, ep', ps', tr')
      \<Longrightarrow> (todo \<noteq> [] \<longrightarrow> length ps' < length ps) \<Longrightarrow> length ps' \<le> length ps"
    by (cases todo) auto
  show ?case
  proof (cases r)
    case (GetErr err)
    with 3 nx step show ?thesis by (fastforce simp: less_Suc_eq_le)
  next
    case (Status s)
    with 3 nx step show ?thesis
      by (cases "s = ''200 OK''") (fastforce simp: less_Suc_eq_le)+
  qed
qed simp_all

text \<open>The outer \<^verbatim>\<open>for\<close>: a pass over the map, then the test \<^verbatim>\<open>len(ep) == 0\<close>.\<close>

function pingEndPoints_for ::
  "(string \<times> string) list \<Rightarrow> (nat \<times> response) list \<Rightarrow> event list
    \<Rightarrow> (error option \<times> (string \<times> string) list \<times> event list) option"
where
  "pingEndPoints_for ep ps tr =
     (case pingEndPoints_range ep ep ps tr of
        None \<Rightarrow> None
      | Some (Some err, ep', ps', tr') \<Rightarrow> Some (Some err, ep', tr')
      | Some (None, ep', ps', tr') \<Rightarrow>
          if length ep' = 0 then Some (None, ep', tr')
          else pingEndPoints_for ep' ps' tr')"
  by pat_completeness auto
termination pingEndPoints_for
proof (relation "measure (\<lambda>(ep, ps, tr). length ps)", goal_cases)
  case 1
  show ?case by simp
next
  case (2 ep ps tr x2 x1 x2a x1a x2b x1b x2c)
  then have r: "pingEndPoints_range ep ep ps tr = Some (None, x1a, x1b, x2c)" by simp
  from pingEndPoints_range_keys [OF r] 2 have "ep \<noteq> []" by auto
  from pingEndPoints_range_tape [OF r this] show ?case by simp
qed

declare pingEndPoints_for.simps [simp del]

definition pingEndPoints ::
  "(string \<times> string) list \<Rightarrow> (nat \<times> response) list
    \<Rightarrow> (error option \<times> (string \<times> string) list \<times> event list) option"
where
  "pingEndPoints ep ps = pingEndPoints_for ep ps []"

text \<open>Classifying probes and the calls recorded for them.\<close>

fun bad_status :: "event \<Rightarrow> bool" where
  "bad_status (HttpGet t u (Status s)) = (s \<noteq> ''200 OK'')"
| "bad_status _ = False"

fun non_200 :: "response \<Rightarrow> bool" where
  "non_200 (Status s) = (s \<noteq> ''200 OK'')"
| "non_200 (GetErr err) = False"

fun request_failed :: "response \<Rightarrow> bool" where
  "request_failed (GetErr err) = True"
| "request_failed (Status s) = False"

text \<open>
  What holds of the map \<open>ep\<close> and the calls made \<open>tr\<close> between two probes, for a run that
  started on the map \<open>ep0\<close>, and what holds when the run is over.
\<close>

definition ping_inv :: "(string \<times> string) list \<Rightarrow> (string \<times> string) list \<Rightarrow> event list \<Rightarrow> bool" where
  "ping_inv ep0 ep tr \<longleftrightarrow>
     set ep \<subseteq> set ep0 \<and> distinct (map fst ep) \<and>
     (\<forall>e u. (e, u) \<in> set ep0 \<and> (e, u) \<notin> set ep \<longrightarrow>
        HttpGet 5 u (Status ''200 OK'') \<in> set tr \<and> Log LDebug ''%q is running!'' [ArgS e] \<in> set tr) \<and>
     (\<forall>e. Log LDebug ''%q is running!'' [ArgS e] \<in> set tr \<longrightarrow> e \<notin> fst ` set ep) \<and>
     (\<forall>ev \<in> set tr. \<not> bad_status ev)"

definition ping_final ::
  "(string \<times> string) list \<Rightarrow> error option \<Rightarrow> (string \<times> string) list \<Rightarrow> event list \<Rightarrow> bool" where
  "ping_final ep0 res ep' tr' \<longleftrightarrow>
     (case res of
        None \<Rightarrow> ping_inv ep0 ep' tr'
      | Some err \<Rightarrow>
          (\<exists>e u s tr0. tr' = tr0 @ [HttpGet 5 u (Status s)] \<and> ping_inv ep0 ep' tr0 \<and>
             s \<noteq> ''200 OK'' \<and> err = Errorf ''for service %q got %q'' [ArgS e, ArgS s] \<and>
             (e, u) \<in> set ep'))"

section \<open>The pod readiness watcher: \<^verbatim>\<open>PodsStarted\<close>\<close>

text \<open>
  \<^verbatim>\<open>
  func PodsStarted(clientset *kubernetes.Clientset, namespace string, podNames []string) error {
      // convert podNames to map
      podUp := make(map[string]int)
      for _, p := range podNames {
          podUp[p] = 0
      }

      for {
          log.Debugf("pods not started yet: %q", strings.Join(mapkeys(podUp), " "))

          pods, err := clientset.CoreV1().Pods(namespace).List(metav1.ListOptions{})
          if err != nil {
              return errors.Wrap(err, "error while listing all pods")
          }
          // iterate on all pods we care about
          for k := range podUp {
              for _, p := range pods.Items {
                  if strings.Contains(p.Name, k) && p.Status.Phase == v1.PodRunning {
                      log.Infof("Pod %q started!", p.Name)
                      delete(podUp, k)
                  }
              }
          }
          if len(podUp) == 0 {
              break
          }
          time.Sleep(1 * time.Second)
      }
      return nil
  }
  \<close>
  Of a listed pod the function reads \<^verbatim>\<open>p.Name\<close> and \<^verbatim>\<open>p.Status.Phase\<close>, a string.
  The calls recorded are the listings and the sleeps; the log lines of this function are
  not part of the model.
\<close>

record Pod =
  pod_Name :: string
  pod_Phase :: string

text \<open>
  Modelled from the spec: the constant \<^verbatim>\<open>v1.PodRunning\<close> belongs to the Kubernetes API
  package, which is not among the sources; the spec names the phase \<open>Running\<close>.
\<close>

definition PodRunning :: string where
  "PodRunning = ''Running''"

text \<open>\<^verbatim>\<open>strings.HasPrefix\<close> and \<^verbatim>\<open>strings.Contains\<close> of the Go library, on byte strings.\<close>

definition HasPrefix :: "string \<Rightarrow> string \<Rightarrow> bool" where
  "HasPrefix s prefix = (take (length prefix) s = prefix)"

fun Contains :: "string \<Rightarrow> string \<Rightarrow> bool" where
  "Contains [] substr = (substr = [])"
| "Contains (c # s) substr = (HasPrefix (c # s) substr \<or> Contains s substr)"

text \<open>The map of names still waited for, as the first loop builds it.\<close>

definition podUp_init :: "string list \<Rightarrow> (string \<times> int) list" where
  "podUp_init podNames = fold (\<lambda>p podUp. AList.update p 0 podUp) podNames []"

text \<open>
  The two nested loops over one listing. \<open>scan_pods k pods podUp\<close> is the inner loop for
  the key \<open>k\<close>; \<open>scan_keys ks pods podUp\<close> is the outer \<^verbatim>\<open>range podUp\<close> visiting the keys
  in the order \<open>ks\<close>. The body deletes no key but the one being visited, so the range visits
  every key the map held when it started. \<open>PodsStarted_for\<close> visits them in the order of
  the association list; \<open>scan_keys_eq\<close> below shows that the resulting map is the same for
  every order.
\<close>

fun scan_pods :: "string \<Rightarrow> Pod list \<Rightarrow> (string \<times> int) list \<Rightarrow> (string \<times> int) list" where
  "scan_pods k [] podUp = podUp"
| "scan_pods k (p # ps) podUp =
     scan_pods k ps
       (if Contains (pod_Name p) k \<and> pod_Phase p = PodRunning then AList.delete k podUp
        else podUp)"

fun scan_keys :: "string list \<Rightarrow> Pod list \<Rightarrow> (string \<times> int) list \<Rightarrow> (string \<times> int) list" where
  "scan_keys [] pods podUp = podUp"
| "scan_keys (k # ks) pods podUp = scan_keys ks pods (scan_pods k pods podUp)"

text \<open>
  The polling loop. The listings are an input: what the successive \<^verbatim>\<open>List\<close> calls come
  back with, an error or the pods. The result is \<open>None\<close> when the listings are used up
  while the loop is still running; otherwise the Go result (\<open>None\<close> for \<^verbatim>\<open>nil\<close>), the map
  as the function left it, and the calls made.
\<close>

fun PodsStarted_for ::
  "string \<Rightarrow> (string \<times> int) list \<Rightarrow> (error + Pod list) list \<Rightarrow> event list
    \<Rightarrow> (error option \<times> (string \<times> int) list \<times> event list) option"
where
  "PodsStarted_for namespace podUp [] tr = None"
| "PodsStarted_for namespace podUp (l # ls) tr =
     (case l of
        Inl err \<Rightarrow>
          Some (Some (Wrap err ''error while listing all pods''), podUp, tr @ [ListPods namespace])
      | Inr pods \<Rightarrow>
          (let podUp' = scan_keys (map fst podUp) pods podUp in
           if length podUp' = 0 then Some (None, podUp', tr @ [ListPods namespace])
           else PodsStarted_for namespace podUp' ls (tr @ [ListPods namespace, Sleep 1])))"

definition PodsStarted ::
  "string \<Rightarrow> string list \<Rightarrow> (error + Pod list) list
    \<Rightarrow> (error option \<times> (string \<times> int) list \<times> event list) option"
where
  "PodsStarted namespace podNames ls = PodsStarted_for namespace (podUp_init podNames) ls []"

text \<open>Some listed pod is running and has \<open>k\<close> in its name.\<close>

definition started :: "Pod list \<Rightarrow> string \<Rightarrow> bool" where
  "started pods k = list_ex (\<lambda>p. Contains (pod_Name p) k \<and> pod_Phase p = PodRunning) pods"


section \<open>The endpoint resolver: \<^verbatim>\<open>getEndPoints\<close>\<close>

text \<open>
  \<^verbatim>\<open>
  type ServicePort struct {
      Name string
      Port int32
  }

  func getEndPoints(clientset *kubernetes.Clientset, namespace string, svcs []ServicePort) (map[string]string, error) {
      // find the minikube ip
      node, err := clientset.CoreV1().Nodes().List(metav1.ListOptions{})
      if err != nil {
          return nil, errors.Wrap(err, "error while listing all nodes")
      }
      nodeIP := node.Items[0].Status.Addresses[0].Address
      log.Debugf("node ip address %s", nodeIP)

      // get all running services
      runningSvcs, err := clientset.CoreV1().Services(namespace).List(metav1.ListOptions{})
      if err != nil {
          return nil, errors.Wrap(err, "error while listing all services")
      }

      endpoint := make(map[string]string)
      for _, svc := range svcs {
          for _, s := range runningSvcs.Items {
              if s.Name == svc.Name {
                  for _, p := range s.Spec.Ports {
                      if p.Port == svc.Port {
                          port := p.NodePort
                          v := fmt.Sprintf("http://%s:%d", nodeIP, port)
                          k := fmt.Sprintf("%s:%d", svc.Name, svc.Port)
                          endpoint[k] = v
                      }
                  }
              }
          }
      }
      log.Debugf("endpoints: %#v", endpoint)
      return endpoint, nil
  }
  \<close>
  Of the objects the client lists, the records keep the fields the function reads:
  \<^verbatim>\<open>s.Name\<close> and \<^verbatim>\<open>s.Spec.Ports\<close> of a service, \<^verbatim>\<open>p.Port\<close> and \<^verbatim>\<open>p.NodePort\<close> (both
  \<^verbatim>\<open>int32\<close>) of one of its ports, and of a node the list of its
  \<^verbatim>\<open>Status.Addresses[i].Address\<close>. The two \<^verbatim>\<open>log.Debugf\<close> lines of the function are
  not part of the model.
\<close>

record ServicePort =
  Name :: string
  Port :: "32 word"

record v1_ServicePort =
  port_Port :: "32 word"
  port_NodePort :: "32 word"

record Service =
  svc_Name :: string
  svc_Ports :: "v1_ServicePort list"

record Node =
  node_Addresses :: "string list"

text \<open>
  The verb \<^verbatim>\<open>%d\<close> of \<^verbatim>\<open>fmt.Sprintf\<close> on an \<^verbatim>\<open>int32\<close>: the decimal digits of the signed
  value, with a leading \<open>-\<close> when it is negative.
\<close>

definition decimal_digits :: string where
  "decimal_digits = ''0123456789''"

definition digit_char :: "nat \<Rightarrow> char" where
  "digit_char n = decimal_digits ! n"

fun digits :: "nat \<Rightarrow> string" where
  "digits n = (if n < 10 then [digit_char n] else digits (n div 10) @ [digit_char (n mod 10)])"

declare digits.simps [simp del]

definition FormatInt :: "int \<Rightarrow> string" where
  "FormatInt i = (if i < 0 then CHR ''-'' # digits (nat (- i)) else digits (nat i))"

text \<open>The two \<^verbatim>\<open>Sprintf\<close> calls: the key \<^verbatim>\<open>"%s:%d"\<close> and the value \<^verbatim>\<open>"http://%s:%d"\<close>.\<close>

definition endpoint_key :: "ServicePort \<Rightarrow> string" where
  "endpoint_key svc = Name svc @ '':'' @ FormatInt (sint (Port svc))"

definition endpoint_url :: "string \<Rightarrow> 32 word \<Rightarrow> string" where
  "endpoint_url nodeIP port = ''http://'' @ nodeIP @ '':'' @ FormatInt (sint port)"

text \<open>The three nested loops, innermost first; each passes the map \<open>endpoint\<close> on.\<close>

definition endpoint_ports ::
  "string \<Rightarrow> ServicePort \<Rightarrow> v1_ServicePort list \<Rightarrow> (string \<times> string) list \<Rightarrow> (string \<times> string) list"
where
  "endpoint_ports nodeIP svc ports endpoint =
     fold (\<lambda>p endpoint.
             if port_Port p = Port svc
             then AList.update (endpoint_key svc) (endpoint_url nodeIP (port_NodePort p)) endpoint
             else endpoint)
       ports endpoint"

definition endpoint_services ::
  "string \<Rightarrow> ServicePort \<Rightarrow> Service list \<Rightarrow> (string \<times> string) list \<Rightarrow> (string \<times> string) list"
where
  "endpoint_services nodeIP svc runningSvcs endpoint =
     fold (\<lambda>s endpoint.
             if svc_Name s = Name svc then endpoint_ports nodeIP svc (svc_Ports s) endpoint
             else endpoint)
       runningSvcs endpoint"

definition endpoints :: "string \<Rightarrow> Service list \<Rightarrow> ServicePort list \<Rightarrow> (string \<times> string) list" where
  "endpoints nodeIP runningSvcs svcs =
     fold (\<lambda>svc endpoint. endpoint_services nodeIP svc runningSvcs endpoint) svcs []"

text \<open>
  The function takes what the two \<^verbatim>\<open>List\<close> calls come back with. Indexing an empty
  slice with \<^verbatim>\<open>[0]\<close> is a run-time panic, \<open>index out of range [0] with length 0\<close>. The
  services are listed only after the node address has been read.
\<close>

definition getEndPoints ::
  "(error + Node list) \<Rightarrow> (error + Service list) \<Rightarrow> string \<Rightarrow> ServicePort list
    \<Rightarrow> (string \<times> string) list outcome \<times> event list"
where
  "getEndPoints nodeList svcList namespace svcs =
     (case nodeList of
        Inl err \<Rightarrow> (Fail (Wrap err ''error while listing all nodes''), [ListNodes])
      | Inr items \<Rightarrow>
          (case items of
             [] \<Rightarrow> (Panic (IndexOutOfRange 0 0), [ListNodes])
           | node # _ \<Rightarrow>
               (case node_Addresses node of
                  [] \<Rightarrow> (Panic (IndexOutOfRange 0 0), [ListNodes])
                | nodeIP # _ \<Rightarrow>
                    (case svcList of
                       Inl err \<Rightarrow>
                         (Fail (Wrap err ''error while listing all services''),
                          [ListNodes, ListServices namespace])
                     | Inr runningSvcs \<Rightarrow>
                         (Return (endpoints nodeIP runningSvcs svcs),
                          [ListNodes, ListServices namespace])))))"


text \<open>Some live service has the declared name and lists the declared port.\<close>

definition matched :: "Service list \<Rightarrow> ServicePort \<Rightarrow> bool" where
  "matched runningSvcs svc =
     list_ex (\<lambda>s. svc_Name s = Name svc \<and> list_ex (\<lambda>p. port_Port p = Port svc) (svc_Ports s))
       runningSvcs"

section \<open>The manifest generator: \<^verbatim>\<open>RunKapp\<close>\<close>

text \<open>
  \<^verbatim>\<open>
  func RunKapp(files []string) ([]byte, error) {
      args := []string{"generate"}
      for _, file := range files {
          args = append(args, "-f")
          args = append(args, os.ExpandEnv(file))
      }
      cmd := exec.Command(KappLoc, args...)

      var out, stdErr bytes.Buffer
      cmd.Stdout = &out
      cmd.Stderr = &stdErr

      err := cmd.Run()
      if err != nil {
          return nil, fmt.Errorf("error running %q\n%s %s",
              fmt.Sprintf("kapp %s", strings.Join(args, " ")),
              stdErr.String(), err)
      }
      return out.Bytes(), nil
  }
  \<close>
  The global \<^verbatim>\<open>KappLoc\<close>, the library function \<^verbatim>\<open>os.ExpandEnv\<close> (with the environment it
  reads) and the process are arguments. \<open>Run path args\<close> is what \<^verbatim>\<open>cmd.Run()\<close> leaves
  behind: the bytes written to the two buffers and its error, which is \<^verbatim>\<open>nil\<close> when the
  command ran and exited with status 0.
\<close>

record cmd_result =
  stdout :: string
  stderr :: string
  run_err :: "error option"

text \<open>\<^verbatim>\<open>strings.Join\<close>.\<close>

fun Join :: "string list \<Rightarrow> string \<Rightarrow> string" where
  "Join [] sep = []"
| "Join [a] sep = a"
| "Join (a # b # rest) sep = a @ sep @ Join (b # rest) sep"

text \<open>The argument vector, as the loop appends to it.\<close>

definition RunKapp_args :: "(string \<Rightarrow> string) \<Rightarrow> string list \<Rightarrow> string list" where
  "RunKapp_args ExpandEnv files =
     fold (\<lambda>file args. (args @ [''-f'']) @ [ExpandEnv file]) files [''generate'']"

definition RunKapp ::
  "string \<Rightarrow> (string \<Rightarrow> string) \<Rightarrow> (string \<Rightarrow> string list \<Rightarrow> cmd_result) \<Rightarrow> string list
    \<Rightarrow> (error + string) \<times> event list"
where
  "RunKapp KappLoc ExpandEnv Run files =
     (let args = RunKapp_args ExpandEnv files;
          cmd = Run KappLoc args
      in (case run_err cmd of
            Some err \<Rightarrow>
              Inl (Errorf (''error running %q'' @ [CHR 0x0A] @ ''%s %s'')
                     [ArgS (''kapp '' @ Join args '' ''), ArgS (stderr cmd), ArgE err])
          | None \<Rightarrow> Inr (stdout cmd),
          [Exec KappLoc args]))"

section \<open>Running one test case\<close>

text \<open>
  \<^verbatim>\<open>RunKubeCreate(input, namespace)\<close> pipes the manifest into
  \<^verbatim>\<open>kubectl -n <namespace> create -f -\<close> and returns an error when starting the process,
  writing to it, reading from it or waiting for it fails. It is taken by its result:
  \<open>Kubectl path args input\<close> is the error of that run, \<open>None\<close> for \<^verbatim>\<open>nil\<close>.
\<close>

definition RunKubeCreate ::
  "string \<Rightarrow> (string \<Rightarrow> string list \<Rightarrow> string \<Rightarrow> error option) \<Rightarrow> string \<Rightarrow> string
    \<Rightarrow> error option \<times> event list"
where
  "RunKubeCreate KubectlLoc Kubectl input namespace =
     (let args = [''-n'', namespace, ''create'', ''-f'', ''-'']
      in (Kubectl KubectlLoc args input, [Exec KubectlLoc args]))"

text \<open>
  \<^verbatim>\<open>
  type testData struct {
      TestName         string
      Namespace        string
      InputFiles       []string
      PodStarted       []string
      NodePortServices []ServicePort
  }
  \<close>
\<close>

record testData =
  TestName :: string
  Namespace :: string
  InputFiles :: "string list"
  PodStarted :: "string list"
  NodePortServices :: "ServicePort list"

text \<open>
  What the collaborators answer while one test case runs: the two tool locations
  (\<^verbatim>\<open>KappLoc\<close>, \<^verbatim>\<open>KubectlLoc\<close>), \<^verbatim>\<open>os.ExpandEnv\<close>, the errors of creating and of
  deleting a namespace, the generator and \<^verbatim>\<open>kubectl\<close> processes, the successive pod
  listings of a namespace, the node listing, the service listing of a namespace, and the
  successive probes.
\<close>

record world =
  w_KappLoc :: string
  w_KubectlLoc :: string
  w_ExpandEnv :: "string \<Rightarrow> string"
  w_Create :: "string \<Rightarrow> error option"
  w_Delete :: "string \<Rightarrow> error option"
  w_Run :: "string \<Rightarrow> string list \<Rightarrow> cmd_result"
  w_Kubectl :: "string \<Rightarrow> string list \<Rightarrow> string \<Rightarrow> error option"
  w_PodLists :: "string \<Rightarrow> (error + Pod list) list"
  w_Nodes :: "error + Node list"
  w_Services :: "string \<Rightarrow> error + Service list"
  w_Probes :: "(nat \<times> response) list"

text \<open>
  The body of the loop of \<^verbatim>\<open>RunTests\<close> in \<^verbatim>\<open>main.go\<close>, for one test case:
  \<^verbatim>\<open>
  for _, test := range tests {
      log.Infoln("Running:", test.TestName)

      // create a namespace
      _, err := createNS(clientset, test.Namespace)
      if err != nil {
          return errors.Wrapf(err, "error creating namespace")
      }
      log.Debugf("namespace %q created", test.Namespace)

      // run kapp
      convertedOutput, err := RunKapp(test.InputFiles)
      if err != nil {
          return errors.Wrapf(err, "error running kapp")
      }
      //log.Debugln(string(convertedOutput))

      // run kubectl create
      if err := RunKubeCreate(convertedOutput, test.Namespace); err != nil {
          return errors.Wrapf(err, "error running kubectl create")
      }

      // see if the pods are running
      if err := PodsStarted(clientset, test.Namespace, test.PodStarted); err != nil {
          return errors.Wrapf(err, "error finding running pods")
      }

      // get endpoints for all services
      endPoints, err := getEndPoints(clientset, test.Namespace, test.NodePortServices)
      if err != nil {
          return errors.Wrapf(err, "error getting nodes")
      }

      if err := pingEndPoints(endPoints); err != nil {
          return errors.Wrapf(err, "error pinging endpoint")
      }
      log.Infoln("Successfully pinged all endpoints!")

      if err := clientset.CoreV1().Namespaces().Delete(test.Namespace, &metav1.DeleteOptions{}); err != nil {
          return errors.Wrapf(err, "error deleting namespace")
      }
      log.Infof("Successfully deleted namespace: %q", test.Namespace)
  }
  \<close>
  The result is \<open>None\<close> when one of the two polling loops is still running at the end of
  its input; otherwise the outcome of the body (\<open>Return ()\<close> when it reached its end, \<open>Fail\<close>
  with the error it returned from \<^verbatim>\<open>RunTests\<close>, \<open>Panic\<close> when \<^verbatim>\<open>getEndPoints\<close> panicked)
  and the calls made.
\<close>

definition RunTests_case :: "world \<Rightarrow> testData \<Rightarrow> (unit outcome \<times> event list) option" where
  "RunTests_case w test =
     (let ns = Namespace test;
          tr0 = [Log LInfo ''Running:'' [ArgS (TestName test)], CreateNamespace ns]
      in case w_Create w ns of
           Some err \<Rightarrow> Some (Fail (Wrap err ''error creating namespace''), tr0)
         | None \<Rightarrow>
      (let tr1 = tr0 @ [Log LDebug ''namespace %q created'' [ArgS ns]]
       in case RunKapp (w_KappLoc w) (w_ExpandEnv w) (w_Run w) (InputFiles test) of
            (Inl err, ev) \<Rightarrow> Some (Fail (Wrap err ''error running kapp''), tr1 @ ev)
          | (Inr convertedOutput, ev) \<Rightarrow>
      (let tr2 = tr1 @ ev
       in case RunKubeCreate (w_KubectlLoc w) (w_Kubectl w) convertedOutput ns of
            (Some err, ev) \<Rightarrow> Some (Fail (Wrap err ''error running kubectl create''), tr2 @ ev)
          | (None, ev) \<Rightarrow>
      (let tr3 = tr2 @ ev
       in case PodsStarted ns (PodStarted test) (w_PodLists w ns) of
            None \<Rightarrow> None
          | Some (Some err, podUp, ev) \<Rightarrow>
              Some (Fail (Wrap err ''error finding running pods''), tr3 @ ev)
          | Some (None, podUp, ev) \<Rightarrow>
      (let tr4 = tr3 @ ev
       in case getEndPoints (w_Nodes w) (w_Services w ns) ns (NodePortServices test) of
            (Panic p, ev) \<Rightarrow> Some (Panic p, tr4 @ ev)
          | (Fail err, ev) \<Rightarrow> Some (Fail (Wrap err ''error getting nodes''), tr4 @ ev)
          | (Return endPoints, ev) \<Rightarrow>
      (let tr5 = tr4 @ ev
       in case pingEndPoints endPoints (w_Probes w) of
            None \<Rightarrow> None
          | Some (Some err, ep, ev) \<Rightarrow>
              Some (Fail (Wrap err ''error pinging endpoint''), tr5 @ ev)
          | Some (None, ep, ev) \<Rightarrow>
      (let tr6 = tr5 @ ev @ [Log LInfo ''Successfully pinged all endpoints!'' [],
                             DeleteNamespace ns]
       in case w_Delete w ns of
            Some err \<Rightarrow> Some (Fail (Wrap err ''error deleting namespace''), tr6)
          | None \<Rightarrow>
              Some (Return (),
                    tr6 @ [Log LInfo ''Successfully deleted namespace: %q'' [ArgS ns]]))))))))"

text \<open>The loop over the test cases: the first error ends \<^verbatim>\<open>RunTests\<close>.\<close>

fun RunTests :: "(testData \<times> world) list \<Rightarrow> (unit outcome \<times> event list) option" where
  "RunTests [] = Some (Return (), [])"
| "RunTests ((test, w) # tests) =
     (case RunTests_case w test of
        None \<Rightarrow> None
      | Some (Return u, tr) \<Rightarrow>
          (case RunTests tests of None \<Rightarrow> None | Some (res, tr') \<Rightarrow> Some (res, tr @ tr'))
      | Some (Fail err, tr) \<Rightarrow> Some (Fail err, tr)
      | Some (Panic p, tr) \<Rightarrow> Some (Panic p, tr))"

text \<open>
  The \<^verbatim>\<open>go test\<close> variant runs each case as a subtest:
  \<^verbatim>\<open>
  func deleteNamespace(t *testing.T, clientset *kubernetes.Clientset, namespace string) {
      if err := clientset.CoreV1().Namespaces().Delete(namespace, &metav1.DeleteOptions{}); err != nil {
          t.Logf("error deleting namespace %q: %v", namespace, err)
      }
      t.Logf("successfully deleted namespace: %q", namespace)
  }

  for _, test := range tests {
      test := test // capture range variable
      t.Run(test.TestName, func(t *testing.T) {
          t.Parallel()
          // create a namespace
          _, err := createNS(clientset, test.Namespace)
          if err != nil {
              t.Fatalf("error creating namespace: %v", err)
          }
          t.Logf("namespace %q created", test.Namespace)
          defer deleteNamespace(t, clientset, test.Namespace)

          // run kapp
          convertedOutput, err := RunKapp(test.InputFiles)
          if err != nil {
              t.Fatalf("error running kapp: %v", err)
          }
          //t.Log(string(convertedOutput))

          // run kubectl create
          if err := RunKubeCreate(t, convertedOutput, test.Namespace); err != nil {
              t.Fatalf("error running kubectl create: %v", err)
          }

          // see if the pods are running
          if err := PodsStarted(t, clientset, test.Namespace, test.PodStarted); err != nil {
              t.Fatalf("error finding running pods: %v", err)
          }

          // get endpoints for all services
          endPoints, err := getEndPoints(t, clientset, test.Namespace, test.NodePortServices)
          if err != nil {
              t.Fatalf("error getting nodes: %v", err)
          }

          if err := pingEndPoints(t, endPoints); err != nil {
              t.Fatalf("error pinging endpoint: %v", err)
          }
          t.Logf("Successfully pinged all endpoints!")
      })
  }
  \<close>
  \<^verbatim>\<open>t.Fatalf\<close> logs and ends the subtest as failed; the deferred call runs when the
  function is left, also by \<^verbatim>\<open>t.Fatalf\<close> and by a panic. The functions called are the
  ones above with \<^verbatim>\<open>t.Logf\<close> as their logger (\<open>t_Logf\<close>). \<open>Test_Integration_steps\<close> is the
  part of the subtest after the \<^verbatim>\<open>defer\<close>.
\<close>

datatype test_status = Passed | Failed | Panicked runtime_panic

fun t_Logf :: "event \<Rightarrow> event" where
  "t_Logf (Log l f as) = Log LTest f as"
| "t_Logf ev = ev"

definition deleteNamespace :: "(string \<Rightarrow> error option) \<Rightarrow> string \<Rightarrow> event list" where
  "deleteNamespace Delete namespace =
     DeleteNamespace namespace #
     (case Delete namespace of
        Some err \<Rightarrow> [Log LTest ''error deleting namespace %q: %v'' [ArgS namespace, ArgE err]]
      | None \<Rightarrow> []) @
     [Log LTest ''successfully deleted namespace: %q'' [ArgS namespace]]"

definition Test_Integration_steps :: "world \<Rightarrow> testData \<Rightarrow> (test_status \<times> event list) option" where
  "Test_Integration_steps w test =
     (let ns = Namespace test
      in case RunKapp (w_KappLoc w) (w_ExpandEnv w) (w_Run w) (InputFiles test) of
            (Inl err, ev) \<Rightarrow> Some (Failed, ev @ [Log LTest ''error running kapp: %v'' [ArgE err]])
          | (Inr convertedOutput, ev) \<Rightarrow>
      (let tr2 = ev
       in case RunKubeCreate (w_KubectlLoc w) (w_Kubectl w) convertedOutput ns of
            (Some err, ev) \<Rightarrow>
              Some (Failed, tr2 @ ev @ [Log LTest ''error running kubectl create: %v'' [ArgE err]])
          | (None, ev) \<Rightarrow>
      (let tr3 = tr2 @ ev
       in case PodsStarted ns (PodStarted test) (w_PodLists w ns) of
            None \<Rightarrow> None
          | Some (Some err, podUp, ev) \<Rightarrow>
              Some (Failed, tr3 @ ev @ [Log LTest ''error finding running pods: %v'' [ArgE err]])
          | Some (None, podUp, ev) \<Rightarrow>
      (let tr4 = tr3 @ ev
       in case getEndPoints (w_Nodes w) (w_Services w ns) ns (NodePortServices test) of
            (Panic p, ev) \<Rightarrow> Some (Panicked p, tr4 @ ev)
          | (Fail err, ev) \<Rightarrow>
              Some (Failed, tr4 @ ev @ [Log LTest ''error getting nodes: %v'' [ArgE err]])
          | (Return endPoints, ev) \<Rightarrow>
      (let tr5 = tr4 @ ev
       in case pingEndPoints endPoints (w_Probes w) of
            None \<Rightarrow> None
          | Some (Some err, ep, ev) \<Rightarrow>
              Some (Failed, tr5 @ map t_Logf ev @ [Log LTest ''error pinging endpoint: %v'' [ArgE err]])
          | Some (None, ep, ev) \<Rightarrow>
              Some (Passed,
                    tr5 @ map t_Logf ev @ [Log LTest ''Successfully pinged all endpoints!'' []]))))))"

definition Test_Integration_case :: "world \<Rightarrow> testData \<Rightarrow> (test_status \<times> event list) option" where
  "Test_Integration_case w test =
     (let ns = Namespace test
      in case w_Create w ns of
           Some err \<Rightarrow>
             Some (Failed, [CreateNamespace ns, Log LTest ''error creating namespace: %v'' [ArgE err]])
         | None \<Rightarrow>
             (case Test_Integration_steps w test of
                None \<Rightarrow> None
              | Some (status, tr) \<Rightarrow>
                  Some (status,
                        [CreateNamespace ns, Log LTest ''namespace %q created'' [ArgS ns]] @ tr @
                        deleteNamespace (w_Delete w) ns)))"

text \<open>
  The first test case of the table in \<^verbatim>\<open>RunTests\<close>, and collaborators under which it
  passes: one running pod \<open>web-abc123\<close>, the service \<open>wordpress\<close> with port 8080 on node
  port 30080, one node at \<open>10.0.0.5\<close>, and a first probe answering \<open>200 OK\<close>.
\<close>

definition wordpress_test :: testData where
  "wordpress_test =
     \<lparr>TestName = ''Normal Wordpress test'', Namespace = ''wordpress'',
      InputFiles = [''$GOPATH/src/github.com/surajssd/kapp/examples/wordpress/db.yaml'',
                    ''$GOPATH/src/github.com/surajssd/kapp/examples/wordpress/web.yaml''],
      PodStarted = [''web''],
      NodePortServices = [\<lparr>Name = ''wordpress'', Port = 8080\<rparr>]\<rparr>"

definition healthy_world :: world where
  "healthy_world =
     \<lparr>w_KappLoc = ''/usr/local/bin/kapp'', w_KubectlLoc = ''/usr/local/bin/kubectl'',
      w_ExpandEnv = (\<lambda>file. ''/go'' @ drop 7 file),
      w_Create = (\<lambda>ns. None), w_Delete = (\<lambda>ns. None),
      w_Run = (\<lambda>path args. \<lparr>stdout = ''kind: List'', stderr = [], run_err = None\<rparr>),
      w_Kubectl = (\<lambda>path args input. None),
      w_PodLists = (\<lambda>ns. [Inr [\<lparr>pod_Name = ''web-abc123'', pod_Phase = ''Running''\<rparr>]]),
      w_Nodes = Inr [\<lparr>node_Addresses = [''10.0.0.5'']\<rparr>],
      w_Services = (\<lambda>ns. Inr [\<lparr>svc_Name = ''wordpress'',
                                  svc_Ports = [\<lparr>port_Port = 8080, port_NodePort = 30080\<rparr>]\<rparr>]),
      w_Probes = [(0, Status ''200 OK'')]\<rparr>"



text \<open>A generator run that exits with status 1.\<close>

definition kapp_fails :: "string \<Rightarrow> string list \<Rightarrow> cmd_result" where
  "kapp_fails path args =
     \<lparr>stdout = [], stderr = ''cannot read file'', run_err = Some (Ext ''exit status 1'')\<rparr>"

text \<open>The calls that create or delete a namespace, and how often a namespace is deleted.\<close>

fun namespace_call :: "event \<Rightarrow> bool" where
  "namespace_call (CreateNamespace ns) = True"
| "namespace_call (DeleteNamespace ns) = True"
| "namespace_call ev = False"

definition count_delete :: "string \<Rightarrow> event list \<Rightarrow> nat" where
  "count_delete ns tr = length (filter (\<lambda>ev. ev = DeleteNamespace ns) tr)"

section \<open>Lemmas about the health poller\<close>

lemma range_next_nth:
  assumes "xs \<noteq> []" and "range_next c xs = (y, ys)"
  shows "\<exists>as bs. xs = as @ y # bs \<and> ys = as @ bs"
proof -
  let ?i = "c mod length xs"
  from assms(1) have i: "?i < length xs" by simp
  from assms(2) have y: "y = xs ! ?i" and ys: "ys = take ?i xs @ drop (Suc ?i) xs"
    by (simp_all add: range_next_def Let_def)
  from id_take_nth_drop [OF i] y ys show ?thesis by blast
qed

lemma range_next_set:
  "xs \<noteq> [] \<Longrightarrow> range_next c xs = (y, ys) \<Longrightarrow> set xs = insert y (set ys)"
  by (drule (1) range_next_nth) auto

lemma range_next_distinct:
  "xs \<noteq> [] \<Longrightarrow> range_next c xs = (y, ys) \<Longrightarrow> distinct (map f xs)
    \<Longrightarrow> f y \<notin> f ` set ys \<and> distinct (map f ys)"
  by (drule (1) range_next_nth) auto

lemma range_order_complete:
  "distinct xs \<Longrightarrow> distinct ys \<Longrightarrow> set ys = set xs \<Longrightarrow>
   \<exists>cs. length cs = length xs \<and> range_order cs xs = ys"
proof (induction ys arbitrary: xs)
  case Nil
  then show ?case by (intro exI [of _ "[]"]) simp
next
  case (Cons y ys)
  from Cons.prems have "y \<in> set xs" by auto
  then obtain i where i: "i < length xs" "xs ! i = y" by (auto simp: in_set_conv_nth)
  let ?rest = "take i xs @ drop (Suc i) xs"
  from i have ne: "xs \<noteq> []" by auto
  from i have nx: "range_next i xs = (y, ?rest)" by (simp add: range_next_def)
  from range_next_set [OF ne nx] range_next_distinct [OF ne nx, of id] Cons.prems
  have "distinct ?rest" "set ys = set ?rest" by auto
  with Cons.IH [of ?rest] Cons.prems obtain cs where
    cs: "length cs = length ?rest" "range_order cs ?rest = ys" by auto
  from ne obtain x xs' where xs: "xs = x # xs'" by (cases xs) auto
  from i cs(1) have "length (i # cs) = length xs" by simp
  moreover from nx cs(2) xs have "range_order (i # cs) xs = y # ys" by simp
  ultimately show ?case by blast
qed

lemma pingEndPoints_range_induct [consumes 1, case_names finished retry running refused]:
  assumes run: "pingEndPoints_range todo ep ps tr = Some out"
    and finished: "\<And>ep ps tr. P [] ep ps tr (None, ep, ps, tr)"
    and retry: "\<And>todo ep c err ps tr e u todo' out.
        todo \<noteq> [] \<Longrightarrow> range_next c todo = ((e, u), todo') \<Longrightarrow>
        P todo' ep ps
          (tr @ [HttpGet 5 u (GetErr err),
                 Log LDebug ''error while making http request %q for service %q, err: %v''
                   [ArgS u, ArgS e, ArgE err],
                 Sleep 1]) out \<Longrightarrow>
        P todo ep ((c, GetErr err) # ps) tr out"
    and running: "\<And>todo ep c ps tr e u todo' out.
        todo \<noteq> [] \<Longrightarrow> range_next c todo = ((e, u), todo') \<Longrightarrow>
        P todo' (AList.delete e ep) ps
          (tr @ [HttpGet 5 u (Status ''200 OK''), Log LDebug ''%q is running!'' [ArgS e]]) out \<Longrightarrow>
        P todo ep ((c, Status ''200 OK'') # ps) tr out"
    and refused: "\<And>todo ep c s ps tr e u todo'.
        todo \<noteq> [] \<Longrightarrow> range_next c todo = ((e, u), todo') \<Longrightarrow> s \<noteq> ''200 OK'' \<Longrightarrow>
        P todo ep ((c, Status s) # ps) tr
          (Some (Errorf ''for service %q got %q'' [ArgS e, ArgS s]), ep, ps,
           tr @ [HttpGet 5 u (Status s)])"
  shows "P todo ep ps tr out"
  using run
proof (induction todo ep ps tr rule: pingEndPoints_range.induct)
  case (1 ep ps tr)
  then show ?case using finished by auto
next
  case (2 x xs ep tr)
  then show ?case by simp
next
  case (3 x xs ep c r ps tr)
  obtain e u todo' where nx: "range_next c (x # xs) = ((e, u), todo')"
    by (metis surj_pair)
  show ?case
  proof (cases r)
    case (GetErr err)
    with 3 nx show ?thesis by (auto intro!: retry [of "x # xs" c e u todo'])
  next
    case (Status s)
    show ?thesis
    proof (cases "s = ''200 OK''")
      case True
      with 3 nx Status show ?thesis by (auto intro!: running [of "x # xs" c e u todo'])
    next
      case False
      with 3 nx Status show ?thesis using refused [of "x # xs" c e u todo' s ep ps tr] by auto
    qed
  qed
qed

lemma pingEndPoints_for_induct [consumes 1, case_names returned emptied again]:
  assumes run: "pingEndPoints_for ep ps tr = Some out"
    and returned: "\<And>ep ps tr err ep' ps' tr'.
        pingEndPoints_range ep ep ps tr = Some (Some err, ep', ps', tr') \<Longrightarrow>
        P ep ps tr (Some err, ep', tr')"
    and emptied: "\<And>ep ps tr ps' tr'.
        pingEndPoints_range ep ep ps tr = Some (None, [], ps', tr') \<Longrightarrow>
        P ep ps tr (None, [], tr')"
    and again: "\<And>ep ps tr ep' ps' tr' out.
        pingEndPoints_range ep ep ps tr = Some (None, ep', ps', tr') \<Longrightarrow> ep' \<noteq> [] \<Longrightarrow>
        pingEndPoints_for ep' ps' tr' = Some out \<Longrightarrow> P ep' ps' tr' out \<Longrightarrow>
        P ep ps tr out"
  shows "P ep ps tr out"
  using run
proof (induction ep ps tr rule: pingEndPoints_for.induct)
  case (1 ep ps tr)
  note unfold = pingEndPoints_for.simps [of ep ps tr]
  show ?case
  proof (cases "pingEndPoints_range ep ep ps tr")
    case None
    with 1(2) unfold show ?thesis by simp
  next
    case (Some a)
    obtain res ep' ps' tr' where a: "a = (res, ep', ps', tr')" by (metis prod_cases4)
    show ?thesis
    proof (cases res)
      case (Some err)
      with 1(2) unfold \<open>pingEndPoints_range ep ep ps tr = Some a\<close> a show ?thesis
        using returned [of ep ps tr err ep' ps' tr'] by simp
    next
      case None
      note r = \<open>pingEndPoints_range ep ep ps tr = Some a\<close> [unfolded a None]
      show ?thesis
      proof (cases "ep' = []")
        case True
        with 1(2) unfold r show ?thesis using emptied [of ep ps tr ps' tr'] by simp
      next
        case False
        with 1(2) unfold r have run': "pingEndPoints_for ep' ps' tr' = Some out" by simp
        from False have "length ep' \<noteq> 0" by simp
        from 1(1) [OF r refl refl refl refl this run']
        have "P ep' ps' tr' out" .
        from again [OF r False run' this] show ?thesis .
      qed
    qed
  qed
qed


lemma ping_inv_retry:
  "ping_inv ep0 ep tr \<Longrightarrow>
   ping_inv ep0 ep (tr @ [HttpGet 5 u (GetErr err),
     Log LDebug ''error while making http request %q for service %q, err: %v'' as, Sleep 1])"
  by (auto simp: ping_inv_def)

lemma ping_inv_running:
  assumes inv: "ping_inv ep0 ep tr" and mem: "(e, u) \<in> set ep"
  shows "ping_inv ep0 (AList.delete e ep)
           (tr @ [HttpGet 5 u (Status ''200 OK''), Log LDebug ''%q is running!'' [ArgS e]])"
proof -
  from inv have d: "distinct (map fst ep)" by (simp add: ping_inv_def)
  have gone: "u' = u" if "(e, u') \<in> set ep" for u'
    using d mem that by (meson eq_key_imp_eq_value)
  have sub: "set (AList.delete e ep) \<subseteq> set ep" by (auto simp: AList.delete_eq)
  have keep: "(e', u') \<in> set (AList.delete e ep)" if "(e', u') \<in> set ep" "e' \<noteq> e" for e' u'
    using that by (auto simp: AList.delete_eq)
  have nokey: "e \<notin> fst ` set (AList.delete e ep)" by (rule AList.delete_notin_dom)
  show ?thesis
    unfolding ping_inv_def
  proof (intro conjI allI impI ballI)
    show "set (AList.delete e ep) \<subseteq> set ep0" using sub inv by (auto simp: ping_inv_def)
    show "distinct (map fst (AList.delete e ep))" using d by (rule AList.distinct_delete)
  next
    fix e1 u1
    assume a: "(e1, u1) \<in> set ep0 \<and> (e1, u1) \<notin> set (AList.delete e ep)"
    show "HttpGet 5 u1 (Status ''200 OK'')
            \<in> set (tr @ [HttpGet 5 u (Status ''200 OK''), Log LDebug ''%q is running!'' [ArgS e]])"
      using a inv keep gone by (cases "(e1, u1) \<in> set ep") (auto simp: ping_inv_def)
    show "Log LDebug ''%q is running!'' [ArgS e1]
            \<in> set (tr @ [HttpGet 5 u (Status ''200 OK''), Log LDebug ''%q is running!'' [ArgS e]])"
      using a inv keep gone by (cases "(e1, u1) \<in> set ep") (auto simp: ping_inv_def)
  next
    fix e1
    assume "Log LDebug ''%q is running!'' [ArgS e1]
             \<in> set (tr @ [HttpGet 5 u (Status ''200 OK''), Log LDebug ''%q is running!'' [ArgS e]])"
    then have "e1 = e \<or> e1 \<notin> fst ` set ep" using inv by (auto simp: ping_inv_def)
    then show "e1 \<notin> fst ` set (AList.delete e ep)" using nokey sub by auto
  next
    fix ev
    assume "ev \<in> set (tr @ [HttpGet 5 u (Status ''200 OK''), Log LDebug ''%q is running!'' [ArgS e]])"
    then show "\<not> bad_status ev" using inv by (auto simp: ping_inv_def)
  qed
qed

lemma pingEndPoints_range_final:
  assumes "pingEndPoints_range todo ep ps tr = Some (res, ep', ps', tr')"
    and "ping_inv ep0 ep tr" and "distinct (map fst todo)" and "set todo \<subseteq> set ep"
  shows "ping_final ep0 res ep' tr'"
proof -
  have "ping_inv ep0 ep tr \<longrightarrow> distinct (map fst todo) \<longrightarrow> set todo \<subseteq> set ep \<longrightarrow>
        (case (res, ep', ps', tr') of (res, ep', ps', tr') \<Rightarrow> ping_final ep0 res ep' tr')"
    using assms(1)
  proof (induction rule: pingEndPoints_range_induct)
    case (finished ep ps tr)
    then show ?case by (simp add: ping_final_def)
  next
    case (retry todo ep c err ps tr e u todo' out)
    from range_next_set [OF retry(1,2)] have "set todo' \<subseteq> set todo" by auto
    moreover have "distinct (map fst todo) \<Longrightarrow> distinct (map fst todo')"
      using range_next_distinct [OF retry(1,2), of fst] by simp
    ultimately show ?case using retry(3) ping_inv_retry by auto
  next
    case (running todo ep c ps tr e u todo' out)
    show ?case
    proof (intro impI)
      assume inv: "ping_inv ep0 ep tr" and d: "distinct (map fst todo)"
        and sub: "set todo \<subseteq> set ep"
      from range_next_set [OF running(1,2)] have s: "set todo = insert (e, u) (set todo')" .
      from range_next_distinct [OF running(1,2) d]
      have nk: "e \<notin> fst ` set todo'" and d': "distinct (map fst todo')" by simp_all
      from s sub have mem: "(e, u) \<in> set ep" by auto
      have "set todo' \<subseteq> set (AList.delete e ep)"
        using s sub nk by (force simp: AList.delete_eq)
      with running(3) ping_inv_running [OF inv mem] d'
      show "case out of (res, ep', ps', tr') \<Rightarrow> ping_final ep0 res ep' tr'" by blast
    qed
  next
    case (refused todo ep c s ps tr e u todo')
    from range_next_set [OF refused(1,2)] have "(e, u) \<in> set todo" by auto
    with refused(3) show ?case by (auto simp: ping_final_def)
  qed
  with assms show ?thesis by simp
qed

lemma pingEndPoints_for_final:
  assumes "pingEndPoints_for ep ps tr = Some (res, ep', tr')" and "ping_inv ep0 ep tr"
  shows "ping_final ep0 res ep' tr' \<and> (res = None \<longrightarrow> ep' = [])"
proof -
  have "ping_inv ep0 ep tr \<longrightarrow>
        (case (res, ep', tr') of (res, ep', tr') \<Rightarrow>
           ping_final ep0 res ep' tr' \<and> (res = None \<longrightarrow> ep' = []))"
    using assms(1)
  proof (induction rule: pingEndPoints_for_induct)
    case (returned ep ps tr err ep' ps' tr')
    then show ?case
      using pingEndPoints_range_final [of ep ep ps tr "Some err" ep' ps' tr' ep0]
      by (auto simp: ping_inv_def)
  next
    case (emptied ep ps tr ps' tr')
    then show ?case
      using pingEndPoints_range_final [of ep ep ps tr None "[]" ps' tr' ep0]
      by (auto simp: ping_inv_def)
  next
    case (again ep ps tr ep' ps' tr' out)
    show ?case
    proof
      assume inv: "ping_inv ep0 ep tr"
      then have "distinct (map fst ep)" by (simp add: ping_inv_def)
      from pingEndPoints_range_final [OF again(1) inv this]
      have "ping_inv ep0 ep' tr'" by (simp add: ping_final_def)
      with again(4) show "case out of (res, ep', tr') \<Rightarrow>
           ping_final ep0 res ep' tr' \<and> (res = None \<longrightarrow> ep' = [])" by simp
    qed
  qed
  with assms show ?thesis by simp
qed

lemma pingEndPoints_final:
  assumes "pingEndPoints ep ps = Some (res, ep', tr)" and "distinct (map fst ep)"
  shows "ping_final ep res ep' tr \<and> (res = None \<longrightarrow> ep' = [])"
proof -
  from assms(2) have "ping_inv ep ep []" by (simp add: ping_inv_def)
  with assms(1) show ?thesis
    unfolding pingEndPoints_def by (rule pingEndPoints_for_final)
qed



lemma pingEndPoints_range_used:
  assumes "pingEndPoints_range todo ep ps tr = Some (res, ep', ps', tr')"
  shows "\<exists>used. ps = used @ ps' \<and> (\<forall>p \<in> set used. res = None \<longrightarrow> \<not> non_200 (snd p))"
proof -
  have "case (res, ep', ps', tr') of (res, ep', ps', tr') \<Rightarrow>
          \<exists>used. ps = used @ ps' \<and> (\<forall>p \<in> set used. res = None \<longrightarrow> \<not> non_200 (snd p))"
    using assms
  proof (induction rule: pingEndPoints_range_induct)
    case (retry todo ep c err ps tr e u todo' out)
    then obtain res ep' ps' tr' used where "out = (res, ep', ps', tr')" "ps = used @ ps'"
      "\<forall>p \<in> set used. res = None \<longrightarrow> \<not> non_200 (snd p)" by auto
    then show ?case by (auto intro!: exI [of _ "(c, GetErr err) # used"])
  next
    case (running todo ep c ps tr e u todo' out)
    then obtain res ep' ps' tr' used where "out = (res, ep', ps', tr')" "ps = used @ ps'"
      "\<forall>p \<in> set used. res = None \<longrightarrow> \<not> non_200 (snd p)" by auto
    then show ?case by (auto intro!: exI [of _ "(c, Status ''200 OK'') # used"])
  next
    case (refused todo ep c s ps tr e u todo')
    then show ?case by (auto intro!: exI [of _ "[(c, Status s)]"])
  qed simp
  then show ?thesis by simp
qed

lemma pingEndPoints_range_None:
  "pingEndPoints_range todo ep ps tr = None \<Longrightarrow> p \<in> set ps \<Longrightarrow> \<not> non_200 (snd p)"
proof (induction todo ep ps tr rule: pingEndPoints_range.induct)
  case (3 x xs ep c r ps tr)
  obtain e u todo' where nx: "range_next c (x # xs) = ((e, u), todo')"
    by (metis surj_pair)
  show ?case
  proof (cases r)
    case (GetErr err)
    with 3 nx show ?thesis by auto
  next
    case (Status s)
    with 3 nx show ?thesis by (cases "s = ''200 OK''") auto
  qed
qed simp_all

lemma pingEndPoints_for_None:
  "pingEndPoints_for ep ps tr = None \<Longrightarrow> p \<in> set ps \<Longrightarrow> \<not> non_200 (snd p)"
proof (induction ep ps tr rule: pingEndPoints_for.induct)
  case (1 ep ps tr)
  show ?case
  proof (cases "pingEndPoints_range ep ep ps tr")
    case None
    from pingEndPoints_range_None [OF this 1(3)] show ?thesis .
  next
    case (Some a)
    obtain res ep' ps' tr' where a: "a = (res, ep', ps', tr')" by (metis prod_cases4)
    note r = Some [unfolded a]
    from pingEndPoints_range_used [OF r] obtain used where
      u: "ps = used @ ps'" "\<forall>p \<in> set used. res = None \<longrightarrow> \<not> non_200 (snd p)" by blast
    from 1(2) r pingEndPoints_for.simps [of ep ps tr]
    have res: "res = None" and ne: "length ep' \<noteq> 0"
      and run': "pingEndPoints_for ep' ps' tr' = None"
      by (auto split: option.splits if_splits)
    from 1(3) u(1) consider "p \<in> set used" | "p \<in> set ps'" by auto
    then show ?thesis
    proof cases
      case 1
      with u(2) res show ?thesis by simp
    next
      case 2
      from "1.IH" [OF r [unfolded res] refl refl refl refl ne run' 2] show ?thesis .
    qed
  qed
qed

lemma pingEndPoints_range_retry_only:
  "\<forall>p \<in> set ps. request_failed (snd p) \<Longrightarrow>
   pingEndPoints_range todo ep ps tr = None \<or>
   (\<exists>ps' tr'. pingEndPoints_range todo ep ps tr = Some (None, ep, ps', tr') \<and> set ps' \<subseteq> set ps)"
proof (induction todo ep ps tr rule: pingEndPoints_range.induct)
  case (3 x xs ep c r ps tr)
  obtain e u todo' where nx: "range_next c (x # xs) = ((e, u), todo')"
    by (metis surj_pair)
  from 3(3) obtain err where r: "r = GetErr err" by (cases r) auto
  from 3(3) have "\<forall>p \<in> set ps. request_failed (snd p)" by simp
  from 3(1) [OF nx [symmetric] refl r this] nx r show ?case by auto
qed simp_all

lemma pingEndPoints_for_retry_only:
  "\<forall>p \<in> set ps. request_failed (snd p) \<Longrightarrow> ep \<noteq> [] \<Longrightarrow> pingEndPoints_for ep ps tr = None"
proof (induction ep ps tr rule: pingEndPoints_for.induct)
  case (1 ep ps tr)
  from "1.prems"(2) have ne: "length ep \<noteq> 0" by simp
  from pingEndPoints_range_retry_only [OF "1.prems"(1), of ep ep tr] show ?case
  proof (elim disjE exE conjE)
    assume "pingEndPoints_range ep ep ps tr = None"
    then show ?thesis by (simp add: pingEndPoints_for.simps [of ep ps tr])
  next
    fix ps' tr'
    assume r: "pingEndPoints_range ep ep ps tr = Some (None, ep, ps', tr')"
      and sub: "set ps' \<subseteq> set ps"
    from sub "1.prems"(1) have all: "\<forall>p \<in> set ps'. request_failed (snd p)" by blast
    from "1.IH" [OF r refl refl refl refl ne all "1.prems"(2)]
    have "pingEndPoints_for ep ps' tr' = None" .
    with r ne show ?thesis by (simp add: pingEndPoints_for.simps [of ep ps tr])
  qed
qed

lemma bad_status_iff:
  "bad_status ev \<longleftrightarrow> (\<exists>t u s. ev = HttpGet t u (Status s) \<and> s \<noteq> ''200 OK'')"
  by (cases ev rule: bad_status.cases) auto

lemma pingEndPoints_for_break_iff:
  assumes "pingEndPoints_range ep ep ps tr = Some (None, ep1, ps1, tr1)"
  shows "(pingEndPoints_for ep ps tr = Some (None, ep1, tr1)) = (ep1 = [])"
proof (cases "ep1 = []")
  case True
  with assms show ?thesis by (simp add: pingEndPoints_for.simps [of ep ps tr])
next
  case False
  have empty: "ep' = []" if "pingEndPoints_for ep0 ps0 tr0 = Some (None, ep', tr')"
    for ep0 ps0 tr0 ep' tr'
  proof -
    have "case (None :: error option, ep', tr') of (res, ep', tr') \<Rightarrow> res = None \<longrightarrow> ep' = []"
      using that by (induction rule: pingEndPoints_for_induct) auto
    then show ?thesis by simp
  qed
  from False assms have "pingEndPoints_for ep ps tr = pingEndPoints_for ep1 ps1 tr1"
    by (simp add: pingEndPoints_for.simps [of ep ps tr])
  with False empty [of ep1 ps1 tr1 ep1 tr1] show ?thesis by auto
qed

section \<open>Lemmas about the pod readiness watcher\<close>

lemma HasPrefix_iff: "HasPrefix s p \<longleftrightarrow> (\<exists>b. s = p @ b)"
  unfolding HasPrefix_def
proof
  assume "take (length p) s = p"
  then have "s = p @ drop (length p) s" by (metis append_take_drop_id)
  then show "\<exists>b. s = p @ b" ..
next
  assume "\<exists>b. s = p @ b"
  then show "take (length p) s = p" by auto
qed

lemma Contains_iff: "Contains s substr \<longleftrightarrow> (\<exists>a b. s = a @ substr @ b)"
proof (induction s)
  case Nil
  then show ?case by auto
next
  case (Cons c s)
  show ?case
  proof
    assume "Contains (c # s) substr"
    then consider "HasPrefix (c # s) substr" | "Contains s substr" by auto
    then show "\<exists>a b. c # s = a @ substr @ b"
    proof cases
      case 1
      then obtain b where "c # s = substr @ b" by (auto simp: HasPrefix_iff)
      then have "c # s = [] @ substr @ b" by simp
      then show ?thesis by blast
    next
      case 2
      with Cons obtain a b where "s = a @ substr @ b" by blast
      then have "c # s = (c # a) @ substr @ b" by simp
      then show ?thesis by blast
    qed
  next
    assume "\<exists>a b. c # s = a @ substr @ b"
    then obtain a b where ab: "c # s = a @ substr @ b" by blast
    show "Contains (c # s) substr"
    proof (cases a)
      case Nil
      with ab have "HasPrefix (c # s) substr" by (auto simp: HasPrefix_iff)
      then show ?thesis by simp
    next
      case (Cons c' a')
      with ab have "s = a' @ substr @ b" by simp
      with Cons.IH show ?thesis by auto
    qed
  qed
qed

lemma scan_pods_eq:
  "scan_pods k pods podUp = (if started pods k then AList.delete k podUp else podUp)"
  by (induction pods arbitrary: podUp) (auto simp: started_def AList.delete_idem)

lemma scan_keys_eq:
  "scan_keys ks pods podUp = filter (\<lambda>kv. \<not> (fst kv \<in> set ks \<and> started pods (fst kv))) podUp"
proof (induction ks arbitrary: podUp)
  case Nil
  then show ?case by simp
next
  case (Cons k ks)
  show ?case
    by (auto simp: Cons.IH scan_pods_eq AList.delete_eq intro!: filter_cong)
qed

lemma podUp_init_keys:
  "fst ` set (fold (\<lambda>p podUp. AList.update p v podUp) podNames m) = set podNames \<union> fst ` set m"
  by (induction podNames arbitrary: m) (auto simp: AList.dom_update)

lemma podUp_init_distinct:
  "distinct (map fst m) \<Longrightarrow> distinct (map fst (fold (\<lambda>p podUp. AList.update p v podUp) podNames m))"
  by (induction podNames arbitrary: m) (auto simp: AList.distinct_update)


lemma started_iff:
  "started pods k \<longleftrightarrow>
     (\<exists>p \<in> set pods. (\<exists>a b. pod_Name p = a @ k @ b) \<and> pod_Phase p = PodRunning)"
  by (simp add: started_def list_ex_iff Contains_iff)

lemma PodsStarted_for_shrinks:
  "PodsStarted_for namespace podUp ls tr = Some (r, podUp', tr') \<Longrightarrow>
   set podUp' \<subseteq> set podUp \<and>
   (\<forall>kv \<in> set podUp. kv \<notin> set podUp' \<longrightarrow> (\<exists>pods. Inr pods \<in> set ls \<and> started pods (fst kv))) \<and>
   (r = None \<longrightarrow> podUp' = []) \<and>
   (\<exists>new. tr' = tr @ ListPods namespace # new)"
proof (induction namespace podUp ls tr rule: PodsStarted_for.induct)
  case (1 namespace podUp tr)
  then show ?case by simp
next
  case (2 namespace podUp l ls tr)
  show ?case
  proof (cases l)
    case (Inl err)
    with 2(2) show ?thesis by auto
  next
    case (Inr pods)
    let ?m = "scan_keys (map fst podUp) pods podUp"
    have sub: "set ?m \<subseteq> set podUp" by (auto simp: scan_keys_eq)
    have gone: "started pods (fst kv)" if "kv \<in> set podUp" "kv \<notin> set ?m" for kv
      using that by (auto simp: scan_keys_eq)
    show ?thesis
    proof (cases "?m = []")
      case True
      with 2(2) Inr gone show ?thesis by auto
    next
      case False
      with 2(2) Inr
      have run: "PodsStarted_for namespace ?m ls (tr @ [ListPods namespace, Sleep 1])
                  = Some (r, podUp', tr')"
        by simp
      from False have ne: "length ?m \<noteq> 0" by simp
      from "2.IH" [OF Inr refl ne run]
      have ih: "set podUp' \<subseteq> set ?m"
        "\<forall>kv \<in> set ?m. kv \<notin> set podUp' \<longrightarrow> (\<exists>pods. Inr pods \<in> set ls \<and> started pods (fst kv))"
        "r = None \<longrightarrow> podUp' = []"
        "\<exists>new. tr' = (tr @ [ListPods namespace, Sleep 1]) @ ListPods namespace # new"
        by blast+
      have "\<exists>pods'. Inr pods' \<in> set (l # ls) \<and> started pods' (fst kv)"
        if "kv \<in> set podUp" "kv \<notin> set podUp'" for kv
      proof (cases "kv \<in> set ?m")
        case True
        with ih(2) that show ?thesis by auto
      next
        case False
        from gone [OF that(1) False] have "started pods (fst kv)" .
        with Inr show ?thesis by auto
      qed
      moreover from ih(4) have "\<exists>new. tr' = tr @ ListPods namespace # new" by auto
      ultimately show ?thesis using ih(1,3) sub by blast
    qed
  qed
qed

lemma PodsStarted_for_break_iff:
  "(PodsStarted_for namespace podUp (Inr pods # ls) tr =
      Some (None, scan_keys (map fst podUp) pods podUp, tr @ [ListPods namespace])) =
   (scan_keys (map fst podUp) pods podUp = [])"
proof (cases "scan_keys (map fst podUp) pods podUp = []")
  case True
  then show ?thesis by simp
next
  case False
  let ?m = "scan_keys (map fst podUp) pods podUp"
  have "PodsStarted_for namespace ?m ls (tr @ [ListPods namespace, Sleep 1])
          \<noteq> Some (None, ?m, tr @ [ListPods namespace])"
  proof
    assume "PodsStarted_for namespace ?m ls (tr @ [ListPods namespace, Sleep 1])
          = Some (None, ?m, tr @ [ListPods namespace])"
    from PodsStarted_for_shrinks [OF this] show False by simp
  qed
  with False show ?thesis by simp
qed

lemma PodsStarted_for_error_nonempty:
  "PodsStarted_for namespace podUp ls tr = Some (Some err, podUp', tr') \<Longrightarrow> podUp \<noteq> []
    \<Longrightarrow> podUp' \<noteq> []"
proof (induction namespace podUp ls tr rule: PodsStarted_for.induct)
  case (1 namespace podUp tr)
  then show ?case by simp
next
  case (2 namespace podUp l ls tr)
  show ?case
  proof (cases l)
    case (Inl e)
    with 2(2,3) show ?thesis by auto
  next
    case (Inr pods)
    let ?m = "scan_keys (map fst podUp) pods podUp"
    from 2(2) Inr have ne: "length ?m \<noteq> 0" by (auto simp: Let_def split: if_splits)
    with 2(2) Inr
    have run: "PodsStarted_for namespace ?m ls (tr @ [ListPods namespace, Sleep 1])
                = Some (Some err, podUp', tr')"
      by simp
    from ne have "?m \<noteq> []" by simp
    from "2.IH" [OF Inr refl ne run this] show ?thesis .
  qed
qed

section \<open>Lemmas about the endpoint resolver\<close>

lemma decimal_digits_props:
  "length decimal_digits = 10" "distinct decimal_digits"
  "CHR ''-'' \<notin> set decimal_digits" "CHR '':'' \<notin> set decimal_digits"
  by (simp_all add: decimal_digits_def)

lemma digit_char_inj: "a < 10 \<Longrightarrow> b < 10 \<Longrightarrow> digit_char a = digit_char b \<Longrightarrow> a = b"
  unfolding digit_char_def using decimal_digits_props(1,2) by (simp add: nth_eq_iff_index_eq)

lemma digit_char_range: "a < 10 \<Longrightarrow> digit_char a \<in> set decimal_digits"
  unfolding digit_char_def using decimal_digits_props(1) by simp

lemma digits_chars: "set (digits n) \<subseteq> set decimal_digits"
proof (induction n rule: digits.induct)
  case (1 n)
  show ?case
  proof (cases "n < 10")
    case True
    with digit_char_range [of n] show ?thesis by (simp add: digits.simps [of n])
  next
    case False
    have "n mod 10 < 10" by simp
    from digit_char_range [OF this] 1 False show ?thesis by (simp add: digits.simps [of n])
  qed
qed

lemma digits_nonempty: "digits n \<noteq> []"
  by (simp add: digits.simps [of n])

lemma digits_inj: "digits n = digits m \<Longrightarrow> n = m"
proof (induction n arbitrary: m rule: digits.induct)
  case (1 n)
  show ?case
  proof (cases "n < 10")
    case True
    show ?thesis
    proof (cases "m < 10")
      case mlt: True
      with True "1.prems" show ?thesis
        by (simp add: digits.simps [of n] digits.simps [of m] digit_char_inj)
    next
      case False
      with True "1.prems" digits_nonempty [of "m div 10"] show ?thesis
        by (simp add: digits.simps [of n] digits.simps [of m])
    qed
  next
    case False
    show ?thesis
    proof (cases "m < 10")
      case True
      with False "1.prems" digits_nonempty [of "n div 10"] show ?thesis
        by (simp add: digits.simps [of n] digits.simps [of m])
    next
      case mge: False
      with False "1.prems"
      have eq: "digits (n div 10) = digits (m div 10)" "digit_char (n mod 10) = digit_char (m mod 10)"
        by (simp_all add: digits.simps [of n] digits.simps [of m])
      from "1.IH" [OF False eq(1)] have d: "n div 10 = m div 10" .
      have "n mod 10 < 10" "m mod 10 < 10" by simp_all
      from digit_char_inj [OF this eq(2)] have r: "n mod 10 = m mod 10" .
      have "n = 10 * (n div 10) + n mod 10" by simp
      also have "\<dots> = 10 * (m div 10) + m mod 10" by (simp only: d r)
      also have "\<dots> = m" by simp
      finally show ?thesis .
    qed
  qed
qed

lemma FormatInt_chars: "c \<in> set (FormatInt i) \<Longrightarrow> c = CHR ''-'' \<or> c \<in> set decimal_digits"
proof (cases "i < 0")
  case True
  assume "c \<in> set (FormatInt i)"
  with True have "c = CHR ''-'' \<or> c \<in> set (digits (nat (- i)))" by (simp add: FormatInt_def)
  with digits_chars show ?thesis by blast
next
  case False
  assume "c \<in> set (FormatInt i)"
  with False have "c \<in> set (digits (nat i))" by (simp add: FormatInt_def)
  with digits_chars show ?thesis by blast
qed

lemma FormatInt_inj: "FormatInt a = FormatInt b \<Longrightarrow> a = b"
proof -
  assume eq: "FormatInt a = FormatInt b"
  have first: "digits n \<noteq> CHR ''-'' # xs" for n xs
  proof
    assume "digits n = CHR ''-'' # xs"
    then have "CHR ''-'' \<in> set (digits n)" by simp
    with digits_chars decimal_digits_props(3) show False by blast
  qed
  show "a = b"
  proof (cases "a < 0")
    case True
    show ?thesis
    proof (cases "b < 0")
      case bneg: True
      with True eq have "digits (nat (- a)) = digits (nat (- b))" by (simp add: FormatInt_def)
      from digits_inj [OF this] True bneg show ?thesis by simp
    next
      case False
      with True eq first [of "nat b" "digits (nat (- a))"] show ?thesis
        by (simp add: FormatInt_def)
    qed
  next
    case False
    show ?thesis
    proof (cases "b < 0")
      case True
      with False eq first [of "nat a" "digits (nat (- b))"] show ?thesis
        by (simp add: FormatInt_def)
    next
      case bpos: False
      with False eq have "digits (nat a) = digits (nat b)" by (simp add: FormatInt_def)
      from digits_inj [OF this] False bpos show ?thesis by simp
    qed
  qed
qed

lemma split_at_first_sep:
  "xs @ c # ys = xs' @ c # ys' \<Longrightarrow> c \<notin> set xs \<Longrightarrow> c \<notin> set xs' \<Longrightarrow> xs = xs' \<and> ys = ys'"
proof (induction xs arbitrary: xs')
  case Nil
  then show ?case by (cases xs') auto
next
  case (Cons x xs)
  then show ?case by (cases xs') auto
qed

lemma split_at_last_sep:
  assumes "xs @ c # ys = xs' @ c # ys'" and "c \<notin> set ys" and "c \<notin> set ys'"
  shows "xs = xs' \<and> ys = ys'"
proof -
  from assms(1) have "rev (xs @ c # ys) = rev (xs' @ c # ys')" by simp
  then have "rev ys @ c # rev xs = rev ys' @ c # rev xs'" by simp
  moreover have "c \<notin> set (rev ys)" "c \<notin> set (rev ys')" using assms(2,3) by simp_all
  ultimately have "rev ys = rev ys' \<and> rev xs = rev xs'" by (rule split_at_first_sep)
  then show ?thesis by simp
qed

lemma endpoint_key_inj:
  "endpoint_key a = endpoint_key b \<Longrightarrow> Name a = Name b \<and> Port a = Port b"
proof -
  assume eq: "endpoint_key a = endpoint_key b"
  have c: "CHR '':'' \<notin> set (FormatInt i)" for i
    using FormatInt_chars [of "CHR '':''" i] decimal_digits_props(4) by auto
  from eq have "Name a @ CHR '':'' # FormatInt (sint (Port a))
      = Name b @ CHR '':'' # FormatInt (sint (Port b))"
    by (simp add: endpoint_key_def)
  from split_at_last_sep [OF this c c]
  have "Name a = Name b" and "FormatInt (sint (Port a)) = FormatInt (sint (Port b))" by simp_all
  from this(2) have "sint (Port a) = sint (Port b)" by (rule FormatInt_inj)
  then have "Port a = Port b" by (rule signed_word_eqI)
  with \<open>Name a = Name b\<close> show ?thesis by simp
qed


lemma update_entry: "kv \<in> set (AList.update k v al) \<Longrightarrow> kv = (k, v) \<or> kv \<in> set al"
  by (induction al) (auto split: if_splits)

lemma endpoint_ports_entries:
  "kv \<in> set (endpoint_ports nodeIP svc ports m) \<Longrightarrow>
   kv \<in> set m \<or>
   (\<exists>p \<in> set ports. port_Port p = Port svc \<and>
      kv = (endpoint_key svc, endpoint_url nodeIP (port_NodePort p)))"
  unfolding endpoint_ports_def
proof (induction ports arbitrary: m)
  case Nil
  then show ?case by simp
next
  case (Cons p ports)
  show ?case
  proof (cases "port_Port p = Port svc")
    case True
    with Cons.prems Cons.IH [of "AList.update (endpoint_key svc)
        (endpoint_url nodeIP (port_NodePort p)) m"]
    show ?thesis by (auto dest: update_entry)
  next
    case False
    with Cons.prems Cons.IH [of m] show ?thesis by auto
  qed
qed

lemma endpoint_ports_keys:
  "fst ` set (endpoint_ports nodeIP svc ports m) =
   fst ` set m \<union> (if list_ex (\<lambda>p. port_Port p = Port svc) ports then {endpoint_key svc} else {})"
  unfolding endpoint_ports_def
  by (induction ports arbitrary: m) (auto simp: AList.dom_update)

lemma endpoint_ports_distinct:
  "distinct (map fst m) \<Longrightarrow> distinct (map fst (endpoint_ports nodeIP svc ports m))"
  unfolding endpoint_ports_def
  by (induction ports arbitrary: m) (auto simp: AList.distinct_update)

lemma endpoint_services_entries:
  "kv \<in> set (endpoint_services nodeIP svc runningSvcs m) \<Longrightarrow>
   kv \<in> set m \<or>
   (\<exists>s \<in> set runningSvcs. svc_Name s = Name svc \<and>
      (\<exists>p \<in> set (svc_Ports s). port_Port p = Port svc \<and>
         kv = (endpoint_key svc, endpoint_url nodeIP (port_NodePort p))))"
  unfolding endpoint_services_def
proof (induction runningSvcs arbitrary: m)
  case Nil
  then show ?case by simp
next
  case (Cons s runningSvcs)
  show ?case
  proof (cases "svc_Name s = Name svc")
    case True
    with Cons.prems Cons.IH [of "endpoint_ports nodeIP svc (svc_Ports s) m"]
    show ?thesis by (auto dest: endpoint_ports_entries)
  next
    case False
    with Cons.prems Cons.IH [of m] show ?thesis by auto
  qed
qed

lemma endpoint_services_keys:
  "fst ` set (endpoint_services nodeIP svc runningSvcs m) =
   fst ` set m \<union> (if matched runningSvcs svc then {endpoint_key svc} else {})"
  unfolding endpoint_services_def matched_def
  by (induction runningSvcs arbitrary: m) (auto simp: endpoint_ports_keys)

lemma endpoint_services_distinct:
  "distinct (map fst m) \<Longrightarrow> distinct (map fst (endpoint_services nodeIP svc runningSvcs m))"
  unfolding endpoint_services_def
  by (induction runningSvcs arbitrary: m) (auto simp: endpoint_ports_distinct)

lemma fold_services_entries:
  "kv \<in> set (fold (\<lambda>svc endpoint. endpoint_services nodeIP svc runningSvcs endpoint) svcs m) \<Longrightarrow>
   kv \<in> set m \<or>
   (\<exists>svc \<in> set svcs. \<exists>s \<in> set runningSvcs. svc_Name s = Name svc \<and>
      (\<exists>p \<in> set (svc_Ports s). port_Port p = Port svc \<and>
         kv = (endpoint_key svc, endpoint_url nodeIP (port_NodePort p))))"
proof (induction svcs arbitrary: m)
  case Nil
  then show ?case by simp
next
  case (Cons svc svcs)
  from Cons.prems Cons.IH [of "endpoint_services nodeIP svc runningSvcs m"]
  show ?case by (auto dest: endpoint_services_entries)
qed

lemma fold_services_keys:
  "fst ` set (fold (\<lambda>svc endpoint. endpoint_services nodeIP svc runningSvcs endpoint) svcs m) =
   fst ` set m \<union> endpoint_key ` {svc \<in> set svcs. matched runningSvcs svc}"
  by (induction svcs arbitrary: m) (auto simp: endpoint_services_keys)

lemma fold_services_distinct:
  "distinct (map fst m) \<Longrightarrow>
   distinct (map fst (fold (\<lambda>svc endpoint. endpoint_services nodeIP svc runningSvcs endpoint) svcs m))"
  by (induction svcs arbitrary: m) (auto simp: endpoint_services_distinct)

lemma matched_cong:
  "Name a = Name b \<Longrightarrow> Port a = Port b \<Longrightarrow> matched runningSvcs a = matched runningSvcs b"
  by (simp add: matched_def)

lemma matched_iff:
  "matched runningSvcs svc \<longleftrightarrow>
     (\<exists>s \<in> set runningSvcs. svc_Name s = Name svc \<and> (\<exists>p \<in> set (svc_Ports s). port_Port p = Port svc))"
  by (simp add: matched_def list_ex_iff)

section \<open>Lemmas about the manifest generator\<close>

lemma RunKapp_args_fold:
  "fold (\<lambda>file args. args @ [''-f'', ExpandEnv file]) files acc =
   acc @ concat (map (\<lambda>file. [''-f'', ExpandEnv file]) files)"
  by (induction files arbitrary: acc) simp_all

lemma RunKapp_args_eq:
  "RunKapp_args ExpandEnv files = ''generate'' # concat (map (\<lambda>file. [''-f'', ExpandEnv file]) files)"
  by (simp add: RunKapp_args_def RunKapp_args_fold)

section \<open>Lemmas about running a test case\<close>

lemma count_delete_append [simp]:
  "count_delete ns (xs @ ys) = count_delete ns xs + count_delete ns ys"
  by (simp add: count_delete_def)

lemma count_delete_simps [simp]:
  "count_delete ns [] = 0"
  "count_delete ns (ev # tr) = (if ev = DeleteNamespace ns then 1 else 0) + count_delete ns tr"
  by (simp_all add: count_delete_def)

lemma count_delete_none:
  "\<forall>ev \<in> set tr. \<not> namespace_call ev \<Longrightarrow> count_delete ns tr = 0"
  by (induction tr) (auto simp: count_delete_def)

lemma t_Logf_namespace_call [simp]: "namespace_call (t_Logf ev) = namespace_call ev"
  by (cases ev) simp_all

lemma pingEndPoints_range_calls:
  assumes "pingEndPoints_range todo ep ps tr = Some (res, ep', ps', tr')"
    and "\<forall>ev \<in> set tr. \<not> namespace_call ev"
  shows "\<forall>ev \<in> set tr'. \<not> namespace_call ev"
proof -
  have "(\<forall>ev \<in> set tr. \<not> namespace_call ev) \<longrightarrow>
        (case (res, ep', ps', tr') of (res, ep', ps', tr') \<Rightarrow> \<forall>ev \<in> set tr'. \<not> namespace_call ev)"
    using assms(1) by (induction rule: pingEndPoints_range_induct) auto
  with assms(2) show ?thesis by simp
qed

lemma pingEndPoints_calls:
  assumes "pingEndPoints ep ps = Some (res, ep', tr')"
  shows "\<forall>ev \<in> set tr'. \<not> namespace_call ev"
proof -
  have "(\<forall>ev \<in> set tr. \<not> namespace_call ev) \<longrightarrow>
        (case (res, ep', tr') of (res, ep', tr') \<Rightarrow> \<forall>ev \<in> set tr'. \<not> namespace_call ev)"
    if "pingEndPoints_for ep ps tr = Some (res, ep', tr')" for tr
    using that
  proof (induction rule: pingEndPoints_for_induct)
    case (returned ep ps tr err ep' ps' tr')
    then show ?case using pingEndPoints_range_calls by fastforce
  next
    case (emptied ep ps tr ps' tr')
    then show ?case using pingEndPoints_range_calls by fastforce
  next
    case (again ep ps tr ep' ps' tr' out)
    from again(1) have "(\<forall>ev \<in> set tr. \<not> namespace_call ev) \<longrightarrow> (\<forall>ev \<in> set tr'. \<not> namespace_call ev)"
      using pingEndPoints_range_calls by blast
    with again(4) show ?case by blast
  qed
  from this [of "[]"] assms show ?thesis by (simp add: pingEndPoints_def)
qed

lemma PodsStarted_for_calls:
  "PodsStarted_for namespace podUp ls tr = Some (r, podUp', tr') \<Longrightarrow>
   \<forall>ev \<in> set tr. \<not> namespace_call ev \<Longrightarrow> \<forall>ev \<in> set tr'. \<not> namespace_call ev"
proof (induction namespace podUp ls tr rule: PodsStarted_for.induct)
  case (1 namespace podUp tr)
  then show ?case by simp
next
  case (2 namespace podUp l ls tr)
  show ?case
  proof (cases l)
    case (Inl err)
    with 2(2,3) show ?thesis by auto
  next
    case (Inr pods)
    let ?m = "scan_keys (map fst podUp) pods podUp"
    show ?thesis
    proof (cases "length ?m = 0")
      case True
      with 2(2,3) Inr show ?thesis by auto
    next
      case False
      with 2(2) Inr
      have run: "PodsStarted_for namespace ?m ls (tr @ [ListPods namespace, Sleep 1])
                  = Some (r, podUp', tr')"
        by simp
      from 2(3) have "\<forall>ev \<in> set (tr @ [ListPods namespace, Sleep 1]). \<not> namespace_call ev"
        by simp
      from "2.IH" [OF Inr refl False run this] show ?thesis .
    qed
  qed
qed

lemma PodsStarted_calls:
  "PodsStarted namespace podNames ls = Some (r, podUp', tr) \<Longrightarrow> \<forall>ev \<in> set tr. \<not> namespace_call ev"
  unfolding PodsStarted_def by (erule PodsStarted_for_calls) simp

lemma RunKapp_calls:
  "RunKapp KappLoc ExpandEnv Run files = (r, tr) \<Longrightarrow> \<forall>ev \<in> set tr. \<not> namespace_call ev"
  by (auto simp: RunKapp_def Let_def)

lemma RunKubeCreate_calls:
  "RunKubeCreate KubectlLoc Kubectl input namespace = (r, tr) \<Longrightarrow> \<forall>ev \<in> set tr. \<not> namespace_call ev"
  by (auto simp: RunKubeCreate_def Let_def)

lemma getEndPoints_calls:
  "getEndPoints nodeList svcList namespace svcs = (r, tr) \<Longrightarrow> \<forall>ev \<in> set tr. \<not> namespace_call ev"
  by (auto simp: getEndPoints_def split: sum.splits list.splits)

lemma Test_Integration_steps_calls:
  assumes "Test_Integration_steps w test = Some (status, tr)"
  shows "\<forall>ev \<in> set tr. \<not> namespace_call ev"
proof -
  obtain r1 e1 where k: "RunKapp (w_KappLoc w) (w_ExpandEnv w) (w_Run w) (InputFiles test) = (r1, e1)"
    by (metis surj_pair)
  note c1 = RunKapp_calls [OF k]
  show ?thesis
  proof (cases r1)
    case (Inl err)
    with assms k c1 show ?thesis by (auto simp: Test_Integration_steps_def)
  next
    case (Inr out)
    obtain r2 e2 where kc: "RunKubeCreate (w_KubectlLoc w) (w_Kubectl w) out (Namespace test) = (r2, e2)"
      by (metis surj_pair)
    note c2 = RunKubeCreate_calls [OF kc]
    show ?thesis
    proof (cases r2)
      case (Some err)
      with assms k Inr kc c1 c2 show ?thesis by (auto simp: Test_Integration_steps_def)
    next
      case None
      note r2 = None
      show ?thesis
      proof (cases "PodsStarted (Namespace test) (PodStarted test) (w_PodLists w (Namespace test))")
        case None
        with assms k Inr kc r2 show ?thesis by (simp add: Test_Integration_steps_def)
      next
        case (Some a)
        then obtain r3 m3 e3 where
          ps: "PodsStarted (Namespace test) (PodStarted test) (w_PodLists w (Namespace test))
                = Some (r3, m3, e3)"
          by (metis prod_cases3)
        note c3 = PodsStarted_calls [OF ps]
        show ?thesis
        proof (cases r3)
          case (Some err)
          with assms k Inr kc r2 ps c1 c2 c3 show ?thesis
            by (auto simp: Test_Integration_steps_def)
        next
          case None
          note r3 = None
          obtain r4 e4 where ge: "getEndPoints (w_Nodes w) (w_Services w (Namespace test))
              (Namespace test) (NodePortServices test) = (r4, e4)"
            by (metis surj_pair)
          note c4 = getEndPoints_calls [OF ge]
          show ?thesis
          proof (cases r4)
            case (Panic p)
            with assms k Inr kc r2 ps r3 ge c1 c2 c3 c4 show ?thesis
              by (auto simp: Test_Integration_steps_def)
          next
            case (Fail err)
            with assms k Inr kc r2 ps r3 ge c1 c2 c3 c4 show ?thesis
              by (auto simp: Test_Integration_steps_def)
          next
            case (Return endPoints)
            show ?thesis
            proof (cases "pingEndPoints endPoints (w_Probes w)")
              case None
              with assms k Inr kc r2 ps r3 ge Return show ?thesis
                by (simp add: Test_Integration_steps_def)
            next
              case (Some b)
              then obtain r5 m5 e5 where pg: "pingEndPoints endPoints (w_Probes w) = Some (r5, m5, e5)"
                by (metis prod_cases3)
              note c5 = pingEndPoints_calls [OF pg]
              from assms k Inr kc r2 ps r3 ge Return pg c1 c2 c3 c4 c5 show ?thesis
                by (cases r5) (auto simp: Test_Integration_steps_def)
            qed
          qed
        qed
      qed
    qed
  qed
qed

lemma Test_Integration_status_without_delete:
  "Test_Integration_steps (w\<lparr>w_Delete := d\<rparr>) test = Test_Integration_steps w test"
  by (simp add: Test_Integration_steps_def Let_def
      cong: prod.case_cong sum.case_cong option.case_cong outcome.case_cong)

lemma Test_Integration_deletes_once:
  "(w_Create w (Namespace test) = None \<and> Test_Integration_case w test = Some (status, tr) \<longrightarrow>
      count_delete (Namespace test) tr = 1 \<and>
      (\<forall>err. w_Delete w (Namespace test) = Some err \<longrightarrow>
         Log LTest ''error deleting namespace %q: %v'' [ArgS (Namespace test), ArgE err] \<in> set tr)) \<and>
   map_option fst (Test_Integration_case (w\<lparr>w_Delete := d\<rparr>) test) =
     map_option fst (Test_Integration_case w test)"
proof (intro conjI impI)
  assume a: "w_Create w (Namespace test) = None \<and> Test_Integration_case w test = Some (status, tr)"
  then obtain tr0 where steps: "Test_Integration_steps w test = Some (status, tr0)"
    and tr: "tr = [CreateNamespace (Namespace test),
                   Log LTest ''namespace %q created'' [ArgS (Namespace test)]] @ tr0 @
                  deleteNamespace (w_Delete w) (Namespace test)"
    by (auto simp: Test_Integration_case_def Let_def split: option.splits)
  from count_delete_none [OF Test_Integration_steps_calls [OF steps]]
  have "count_delete (Namespace test) tr0 = 0" .
  then show "count_delete (Namespace test) tr = 1"
    by (simp add: tr deleteNamespace_def split: option.splits)
  show "\<forall>err. w_Delete w (Namespace test) = Some err \<longrightarrow>
         Log LTest ''error deleting namespace %q: %v'' [ArgS (Namespace test), ArgE err] \<in> set tr"
    by (simp add: tr deleteNamespace_def)
next
  show "map_option fst (Test_Integration_case (w\<lparr>w_Delete := d\<rparr>) test) =
     map_option fst (Test_Integration_case w test)"
    by (simp add: Test_Integration_case_def Test_Integration_status_without_delete Let_def
        split: option.splits)
qed


lemma RunTests_case_delete:
  assumes "RunTests_case w test = Some (res, tr)"
  shows "count_delete (Namespace test) tr =
           (if res = Return () \<or> (\<exists>err. res = Fail (Wrap err ''error deleting namespace''))
            then 1 else 0) \<and>
         (\<forall>err. w_Delete w (Namespace test) = Some err \<longrightarrow> res \<noteq> Return ())"
proof -
  let ?ns = "Namespace test"
  let ?goal = "count_delete ?ns tr =
           (if res = Return () \<or> (\<exists>err. res = Fail (Wrap err ''error deleting namespace''))
            then 1 else 0) \<and>
         (\<forall>err. w_Delete w ?ns = Some err \<longrightarrow> res \<noteq> Return ())"
  show ?thesis
  proof (cases "w_Create w ?ns")
    case (Some err)
    with assms show ?thesis by (auto simp: RunTests_case_def Let_def)
  next
    case None
    note r0 = None
    obtain r1 e1 where k: "RunKapp (w_KappLoc w) (w_ExpandEnv w) (w_Run w) (InputFiles test) = (r1, e1)"
      by (metis surj_pair)
    note c1 = count_delete_none [OF RunKapp_calls [OF k], of ?ns]
    show ?thesis
    proof (cases r1)
      case (Inl err)
      with assms r0 k c1 show ?thesis by (auto simp: RunTests_case_def Let_def)
    next
      case (Inr out)
      obtain r2 e2 where kc: "RunKubeCreate (w_KubectlLoc w) (w_Kubectl w) out ?ns = (r2, e2)"
        by (metis surj_pair)
      note c2 = count_delete_none [OF RunKubeCreate_calls [OF kc], of ?ns]
      show ?thesis
      proof (cases r2)
        case (Some err)
        with assms r0 k Inr kc c1 c2 show ?thesis by (auto simp: RunTests_case_def Let_def)
      next
        case None
        note r2 = None
        show ?thesis
        proof (cases "PodsStarted ?ns (PodStarted test) (w_PodLists w ?ns)")
          case None
          with assms r0 k Inr kc r2 show ?thesis by (simp add: RunTests_case_def Let_def)
        next
          case (Some a)
          then obtain r3 m3 e3 where
            ps: "PodsStarted ?ns (PodStarted test) (w_PodLists w ?ns) = Some (r3, m3, e3)"
            by (metis prod_cases3)
          note c3 = count_delete_none [OF PodsStarted_calls [OF ps], of ?ns]
          show ?thesis
          proof (cases r3)
            case (Some err)
            with assms r0 k Inr kc r2 ps c1 c2 c3 show ?thesis
              by (auto simp: RunTests_case_def Let_def)
          next
            case None
            note r3 = None
            obtain r4 e4 where ge: "getEndPoints (w_Nodes w) (w_Services w ?ns) ?ns
                (NodePortServices test) = (r4, e4)"
              by (metis surj_pair)
            note c4 = count_delete_none [OF getEndPoints_calls [OF ge], of ?ns]
            show ?thesis
            proof (cases r4)
              case (Panic p)
              with assms r0 k Inr kc r2 ps r3 ge c1 c2 c3 c4 show ?thesis
                by (auto simp: RunTests_case_def Let_def)
            next
              case (Fail err)
              with assms r0 k Inr kc r2 ps r3 ge c1 c2 c3 c4 show ?thesis
                by (auto simp: RunTests_case_def Let_def)
            next
              case (Return endPoints)
              show ?thesis
              proof (cases "pingEndPoints endPoints (w_Probes w)")
                case None
                with assms r0 k Inr kc r2 ps r3 ge Return show ?thesis
                  by (simp add: RunTests_case_def Let_def)
              next
                case (Some b)
                then obtain r5 m5 e5 where
                  pg: "pingEndPoints endPoints (w_Probes w) = Some (r5, m5, e5)"
                  by (metis prod_cases3)
                note c5 = count_delete_none [OF pingEndPoints_calls [OF pg], of ?ns]
                show ?thesis
                proof (cases r5)
                  case (Some err)
                  with assms r0 k Inr kc r2 ps r3 ge Return pg c1 c2 c3 c4 c5 show ?thesis
                    by (auto simp: RunTests_case_def Let_def)
                next
                  case None
                  with assms r0 k Inr kc r2 ps r3 ge Return pg c1 c2 c3 c4 c5 show ?thesis
                    by (cases "w_Delete w ?ns") (auto simp: RunTests_case_def Let_def)
                qed
              qed
            qed
          qed
        qed
      qed
    qed
  qed
qed

text \<open>The subtest on the test case and collaborators of \<open>healthy_world\<close>, with a failing generator.\<close>

lemma Test_Integration_deletes_after_failure:
  "Test_Integration_case (healthy_world\<lparr>w_Run := kapp_fails\<rparr>) wordpress_test =
     Some (Failed,
           [CreateNamespace ''wordpress'',
            Log LTest ''namespace %q created'' [ArgS ''wordpress''],
            Exec ''/usr/local/bin/kapp''
              [''generate'',
               ''-f'', ''/go/src/github.com/surajssd/kapp/examples/wordpress/db.yaml'',
               ''-f'', ''/go/src/github.com/surajssd/kapp/examples/wordpress/web.yaml''],
            Log LTest ''error running kapp: %v''
              [ArgE (Errorf (''error running %q'' @ [CHR 0x0A] @ ''%s %s'')
                       [ArgS (''kapp generate'' @
                              '' -f /go/src/github.com/surajssd/kapp/examples/wordpress/db.yaml'' @
                              '' -f /go/src/github.com/surajssd/kapp/examples/wordpress/web.yaml''),
                        ArgS ''cannot read file'', ArgE (Ext ''exit status 1'')])],
            DeleteNamespace ''wordpress'',
            Log LTest ''successfully deleted namespace: %q'' [ArgS ''wordpress'']])"
proof -
  have kapp: "RunKapp ''/usr/local/bin/kapp'' (\<lambda>file. ''/go'' @ drop 7 file) kapp_fails
      (InputFiles wordpress_test) =
     (Inl (Errorf (''error running %q'' @ [CHR 0x0A] @ ''%s %s'')
                         [ArgS (''kapp generate'' @
                                '' -f /go/src/github.com/surajssd/kapp/examples/wordpress/db.yaml'' @
                                '' -f /go/src/github.com/surajssd/kapp/examples/wordpress/web.yaml''),
                          ArgS ''cannot read file'', ArgE (Ext ''exit status 1'')]),
      [Exec ''/usr/local/bin/kapp''
              [''generate'',
               ''-f'', ''/go/src/github.com/surajssd/kapp/examples/wordpress/db.yaml'',
               ''-f'', ''/go/src/github.com/surajssd/kapp/examples/wordpress/web.yaml'']])"
    by (simp add: RunKapp_def RunKapp_args_def wordpress_test_def kapp_fails_def)
  have ns: "Namespace wordpress_test = ''wordpress''" by (simp add: wordpress_test_def)
  from kapp show ?thesis
    by (simp add: Test_Integration_case_def Test_Integration_steps_def healthy_world_def
        deleteNamespace_def Let_def ns)
qed

section \<open>Properties\<close>

text \<open>
  C1. A probe that comes back with a status line other than exactly \<open>200 OK\<close> ends the
  health poll at once: the range body returns the error \<^verbatim>\<open>for service %q got %q\<close> with
  the entry's key and that status, leaving the map and every later probe untouched; a run
  whose probes hold such a status always returns; and in any run that returned, such a
  probe is the last call made, the error names an entry of the map with the probed URL and
  the status, and no earlier probe got such a status. Other 2xx status lines
  (\<open>201 Created\<close>) are refused like any other.
\<close>

theorem pingEndPoints_non_200_aborts:
  "(todo \<noteq> [] \<and> s \<noteq> ''200 OK'' \<longrightarrow>
      pingEndPoints_range todo ep ((c, Status s) # ps) tr =
        Some (Some (Errorf ''for service %q got %q''
                      [ArgS (fst (fst (range_next c todo))), ArgS s]),
              ep, ps, tr @ [HttpGet 5 (snd (fst (range_next c todo))) (Status s)])) \<and>
   ((c, Status s) \<in> set ps \<and> s \<noteq> ''200 OK'' \<longrightarrow> pingEndPoints ep ps \<noteq> None) \<and>
   (distinct (map fst ep) \<and> pingEndPoints ep ps = Some (res, ep', tr') \<and>
    HttpGet t u (Status s) \<in> set tr' \<and> s \<noteq> ''200 OK'' \<longrightarrow>
      (\<exists>e tr0. (e, u) \<in> set ep \<and>
         res = Some (Errorf ''for service %q got %q'' [ArgS e, ArgS s]) \<and>
         tr' = tr0 @ [HttpGet 5 u (Status s)] \<and> \<not> list_ex bad_status tr0))"
proof (intro conjI impI)
  assume "todo \<noteq> [] \<and> s \<noteq> ''200 OK''"
  then obtain x xs where "todo = x # xs" and "s \<noteq> ''200 OK''" by (cases todo) auto
  then show "pingEndPoints_range todo ep ((c, Status s) # ps) tr =
        Some (Some (Errorf ''for service %q got %q''
                      [ArgS (fst (fst (range_next c todo))), ArgS s]),
              ep, ps, tr @ [HttpGet 5 (snd (fst (range_next c todo))) (Status s)])"
    by (simp split: prod.splits)
next
  assume a: "(c, Status s) \<in> set ps \<and> s \<noteq> ''200 OK''"
  show "pingEndPoints ep ps \<noteq> None"
  proof
    assume "pingEndPoints ep ps = None"
    then have "pingEndPoints_for ep ps [] = None" by (simp add: pingEndPoints_def)
    from pingEndPoints_for_None [OF this, of "(c, Status s)"] a show False by simp
  qed
next
  assume a: "distinct (map fst ep) \<and> pingEndPoints ep ps = Some (res, ep', tr') \<and>
    HttpGet t u (Status s) \<in> set tr' \<and> s \<noteq> ''200 OK''"
  then have fin: "ping_final ep res ep' tr'" using pingEndPoints_final by blast
  from a have bad: "bad_status (HttpGet t u (Status s))" by simp
  show "\<exists>e tr0. (e, u) \<in> set ep \<and>
         res = Some (Errorf ''for service %q got %q'' [ArgS e, ArgS s]) \<and>
         tr' = tr0 @ [HttpGet 5 u (Status s)] \<and> \<not> list_ex bad_status tr0"
  proof (cases res)
    case None
    with fin have "\<forall>ev \<in> set tr'. \<not> bad_status ev" by (simp add: ping_final_def ping_inv_def)
    with a bad show ?thesis by blast
  next
    case (Some err)
    with fin obtain e1 u1 s1 tr0 where
      tr': "tr' = tr0 @ [HttpGet 5 u1 (Status s1)]" and inv: "ping_inv ep ep' tr0"
      and err: "err = Errorf ''for service %q got %q'' [ArgS e1, ArgS s1]"
      and mem: "(e1, u1) \<in> set ep'"
      by (auto simp: ping_final_def)
    from inv have nobad: "\<forall>ev \<in> set tr0. \<not> bad_status ev" and sub: "set ep' \<subseteq> set ep"
      by (simp_all add: ping_inv_def)
    from a tr' nobad bad have "HttpGet t u (Status s) = HttpGet 5 u1 (Status s1)" by auto
    with Some err mem sub tr' nobad show ?thesis by (auto simp: list_ex_iff)
  qed
qed

theorem pingEndPoints_non_200_aborts_witness:
  "((0, Status ''201 Created'') \<in> set [(0, Status ''200 OK''), (0, Status ''201 Created'')] \<and>
    ''201 Created'' \<noteq> ''200 OK'') \<and>
   pingEndPoints [(''wordpress:8080'', ''http://10.0.0.5:30080''), (''db:3306'', ''http://10.0.0.5:30081'')]
     [(0, Status ''200 OK''), (0, Status ''201 Created'')] =
     Some (Some (Errorf ''for service %q got %q'' [ArgS ''db:3306'', ArgS ''201 Created'']),
           [(''db:3306'', ''http://10.0.0.5:30081'')],
           [HttpGet 5 ''http://10.0.0.5:30080'' (Status ''200 OK''),
            Log LDebug ''%q is running!'' [ArgS ''wordpress:8080''],
            HttpGet 5 ''http://10.0.0.5:30081'' (Status ''201 Created'')]) \<and>
   (\<exists>e tr0. (e, ''http://10.0.0.5:30081'') \<in> set [(''wordpress:8080'', ''http://10.0.0.5:30080''), (''db:3306'', ''http://10.0.0.5:30081'')] \<and>
      Some (Errorf ''for service %q got %q'' [ArgS ''db:3306'', ArgS ''201 Created'']) =
        Some (Errorf ''for service %q got %q'' [ArgS e, ArgS ''201 Created'']) \<and>
      [HttpGet 5 ''http://10.0.0.5:30080'' (Status ''200 OK''),
       Log LDebug ''%q is running!'' [ArgS ''wordpress:8080''],
       HttpGet 5 ''http://10.0.0.5:30081'' (Status ''201 Created'')] =
        tr0 @ [HttpGet 5 ''http://10.0.0.5:30081'' (Status ''201 Created'')] \<and>
      \<not> list_ex bad_status tr0)"
proof -
  let ?ep = "[(''wordpress:8080'', ''http://10.0.0.5:30080''), (''db:3306'', ''http://10.0.0.5:30081'')]"
  let ?ps = "[(0::nat, Status ''200 OK''), (0, Status ''201 Created'')]"
  let ?tr = "[HttpGet 5 ''http://10.0.0.5:30080'' (Status ''200 OK''),
            Log LDebug ''%q is running!'' [ArgS ''wordpress:8080''],
            HttpGet 5 ''http://10.0.0.5:30081'' (Status ''201 Created'')]"
  have run: "pingEndPoints ?ep ?ps =
     Some (Some (Errorf ''for service %q got %q'' [ArgS ''db:3306'', ArgS ''201 Created'']),
           [(''db:3306'', ''http://10.0.0.5:30081'')], ?tr)"
    by (simp add: pingEndPoints_def pingEndPoints_for.simps range_next_def)
  have h: "distinct (map fst ?ep)" "HttpGet 5 ''http://10.0.0.5:30081'' (Status ''201 Created'') \<in> set ?tr"
    "''201 Created'' \<noteq> ''200 OK''" "(0, Status ''201 Created'') \<in> set ?ps"
    by simp_all
  from pingEndPoints_non_200_aborts [of "[]" "''201 Created''" ?ep 0 ?ps "[]"
      "Some (Errorf ''for service %q got %q'' [ArgS ''db:3306'', ArgS ''201 Created''])"
      "[(''db:3306'', ''http://10.0.0.5:30081'')]" ?tr 5 "''http://10.0.0.5:30081''"] run h
  show ?thesis by simp
qed


text \<open>
  C2. The claim: once the namespace of a test case is created, it is deleted exactly once
  whatever the later steps do, and a failed deletion is logged and not passed on. The
  subtest of the \<^verbatim>\<open>go test\<close> variant does so (\<open>Test_Integration_deletes_once\<close> above).
  \<^verbatim>\<open>RunTests\<close> of \<^verbatim>\<open>main.go\<close> does not: when the generator fails on the first test case
  of its table, it returns the error with the namespace created and never deleted; and
  when every step succeeds and the deletion fails, it returns the error of the deletion.
\<close>

theorem RunTests_leaves_namespace_on_failure:
  "RunTests [(wordpress_test, healthy_world\<lparr>w_Run := kapp_fails\<rparr>)] =
     Some (Fail (Wrap (Errorf (''error running %q'' @ [CHR 0x0A] @ ''%s %s'')
                         [ArgS (''kapp generate'' @
                                '' -f /go/src/github.com/surajssd/kapp/examples/wordpress/db.yaml'' @
                                '' -f /go/src/github.com/surajssd/kapp/examples/wordpress/web.yaml''),
                          ArgS ''cannot read file'', ArgE (Ext ''exit status 1'')])
                 ''error running kapp''),
           [Log LInfo ''Running:'' [ArgS ''Normal Wordpress test''],
            CreateNamespace ''wordpress'',
            Log LDebug ''namespace %q created'' [ArgS ''wordpress''],
            Exec ''/usr/local/bin/kapp''
              [''generate'',
               ''-f'', ''/go/src/github.com/surajssd/kapp/examples/wordpress/db.yaml'',
               ''-f'', ''/go/src/github.com/surajssd/kapp/examples/wordpress/web.yaml'']]) \<and>
   RunTests [(wordpress_test, healthy_world\<lparr>w_Delete := \<lambda>ns. Some (Ext ''timeout'')\<rparr>)] =
     Some (Fail (Wrap (Ext ''timeout'') ''error deleting namespace''),
           [Log LInfo ''Running:'' [ArgS ''Normal Wordpress test''],
            CreateNamespace ''wordpress'',
            Log LDebug ''namespace %q created'' [ArgS ''wordpress''],
            Exec ''/usr/local/bin/kapp''
              [''generate'',
               ''-f'', ''/go/src/github.com/surajssd/kapp/examples/wordpress/db.yaml'',
               ''-f'', ''/go/src/github.com/surajssd/kapp/examples/wordpress/web.yaml''],
            Exec ''/usr/local/bin/kubectl'' [''-n'', ''wordpress'', ''create'', ''-f'', ''-''],
            ListPods ''wordpress'', ListNodes, ListServices ''wordpress'',
            HttpGet 5 ''http://10.0.0.5:30080'' (Status ''200 OK''),
            Log LDebug ''%q is running!'' [ArgS ''wordpress:8080''],
            Log LInfo ''Successfully pinged all endpoints!'' [],
            DeleteNamespace ''wordpress''])"
proof (intro conjI)
  have kapp: "RunKapp ''/usr/local/bin/kapp'' (\<lambda>file. ''/go'' @ drop 7 file) kapp_fails
      (InputFiles wordpress_test) =
     (Inl (Errorf (''error running %q'' @ [CHR 0x0A] @ ''%s %s'')
                         [ArgS (''kapp generate'' @
                                '' -f /go/src/github.com/surajssd/kapp/examples/wordpress/db.yaml'' @
                                '' -f /go/src/github.com/surajssd/kapp/examples/wordpress/web.yaml''),
                          ArgS ''cannot read file'', ArgE (Ext ''exit status 1'')]),
      [Exec ''/usr/local/bin/kapp''
              [''generate'',
               ''-f'', ''/go/src/github.com/surajssd/kapp/examples/wordpress/db.yaml'',
               ''-f'', ''/go/src/github.com/surajssd/kapp/examples/wordpress/web.yaml'']])"
    by (simp add: RunKapp_def RunKapp_args_def wordpress_test_def kapp_fails_def)
  show "RunTests [(wordpress_test, healthy_world\<lparr>w_Run := kapp_fails\<rparr>)] =
     Some (Fail (Wrap (Errorf (''error running %q'' @ [CHR 0x0A] @ ''%s %s'')
                         [ArgS (''kapp generate'' @
                                '' -f /go/src/github.com/surajssd/kapp/examples/wordpress/db.yaml'' @
                                '' -f /go/src/github.com/surajssd/kapp/examples/wordpress/web.yaml''),
                          ArgS ''cannot read file'', ArgE (Ext ''exit status 1'')])
                 ''error running kapp''),
           [Log LInfo ''Running:'' [ArgS ''Normal Wordpress test''],
            CreateNamespace ''wordpress'',
            Log LDebug ''namespace %q created'' [ArgS ''wordpress''],
            Exec ''/usr/local/bin/kapp''
              [''generate'',
               ''-f'', ''/go/src/github.com/surajssd/kapp/examples/wordpress/db.yaml'',
               ''-f'', ''/go/src/github.com/surajssd/kapp/examples/wordpress/web.yaml'']])"
    using kapp
    by (simp add: RunTests_case_def healthy_world_def Let_def)
       (simp add: wordpress_test_def)
next
  have kapp: "RunKapp ''/usr/local/bin/kapp'' (\<lambda>file. ''/go'' @ drop 7 file)
      (\<lambda>path args. \<lparr>stdout = ''kind: List'', stderr = [], run_err = None\<rparr>)
      (InputFiles wordpress_test) =
     (Inr ''kind: List'',
      [Exec ''/usr/local/bin/kapp''
              [''generate'',
               ''-f'', ''/go/src/github.com/surajssd/kapp/examples/wordpress/db.yaml'',
               ''-f'', ''/go/src/github.com/surajssd/kapp/examples/wordpress/web.yaml'']])"
    by (simp add: RunKapp_def RunKapp_args_def wordpress_test_def)
  have pods: "PodsStarted ''wordpress'' [''web'']
      [Inr [\<lparr>pod_Name = ''web-abc123'', pod_Phase = ''Running''\<rparr>]] =
      Some (None, [], [ListPods ''wordpress''])"
    by (simp add: PodsStarted_def podUp_init_def PodRunning_def HasPrefix_def)
  have eps: "getEndPoints (Inr [\<lparr>node_Addresses = [''10.0.0.5'']\<rparr>])
      (Inr [\<lparr>svc_Name = ''wordpress'',
             svc_Ports = [\<lparr>port_Port = 8080, port_NodePort = 30080\<rparr>]\<rparr>])
      ''wordpress'' [\<lparr>Name = ''wordpress'', Port = 8080\<rparr>] =
      (Return [(''wordpress:8080'', ''http://10.0.0.5:30080'')],
       [ListNodes, ListServices ''wordpress''])"
    by (simp add: getEndPoints_def endpoints_def endpoint_services_def endpoint_ports_def
        endpoint_key_def endpoint_url_def FormatInt_def digits.simps digit_char_def
        decimal_digits_def)
  have ping: "pingEndPoints [(''wordpress:8080'', ''http://10.0.0.5:30080'')] [(0, Status ''200 OK'')] =
      Some (None, [], [HttpGet 5 ''http://10.0.0.5:30080'' (Status ''200 OK''),
                       Log LDebug ''%q is running!'' [ArgS ''wordpress:8080'']])"
    by (simp add: pingEndPoints_def pingEndPoints_for.simps range_next_def)
  have t: "Namespace wordpress_test = ''wordpress''" "PodStarted wordpress_test = [''web'']"
    "NodePortServices wordpress_test = [\<lparr>Name = ''wordpress'', Port = 8080\<rparr>]"
    "TestName wordpress_test = ''Normal Wordpress test''"
    by (simp_all add: wordpress_test_def)
  show "RunTests [(wordpress_test, healthy_world\<lparr>w_Delete := \<lambda>ns. Some (Ext ''timeout'')\<rparr>)] =
     Some (Fail (Wrap (Ext ''timeout'') ''error deleting namespace''),
           [Log LInfo ''Running:'' [ArgS ''Normal Wordpress test''],
            CreateNamespace ''wordpress'',
            Log LDebug ''namespace %q created'' [ArgS ''wordpress''],
            Exec ''/usr/local/bin/kapp''
              [''generate'',
               ''-f'', ''/go/src/github.com/surajssd/kapp/examples/wordpress/db.yaml'',
               ''-f'', ''/go/src/github.com/surajssd/kapp/examples/wordpress/web.yaml''],
            Exec ''/usr/local/bin/kubectl'' [''-n'', ''wordpress'', ''create'', ''-f'', ''-''],
            ListPods ''wordpress'', ListNodes, ListServices ''wordpress'',
            HttpGet 5 ''http://10.0.0.5:30080'' (Status ''200 OK''),
            Log LDebug ''%q is running!'' [ArgS ''wordpress:8080''],
            Log LInfo ''Successfully pinged all endpoints!'' [],
            DeleteNamespace ''wordpress''])"
    using kapp pods eps ping
    by (simp add: RunTests_case_def healthy_world_def RunKubeCreate_def Let_def t)
qed

text \<open>
  C3. Scanning one pod listing removes a name that is still waited for if and only if
  some listed pod is in phase \<open>Running\<close> and its name contains that name as a substring,
  whatever the order in which the keys are visited; containment is not equality, so a pod
  named \<open>webcache-xyz\<close> satisfies the name \<open>web\<close>. A scan adds nothing to the map.
\<close>

theorem PodsStarted_scan_removes_iff:
  "(set ks = fst ` set podUp \<and> k \<in> fst ` set podUp \<longrightarrow>
      (k \<notin> fst ` set (scan_keys ks pods podUp)) =
      (\<exists>p \<in> set pods. (\<exists>a b. pod_Name p = a @ k @ b) \<and> pod_Phase p = PodRunning)) \<and>
   Contains s k = (\<exists>a b. s = a @ k @ b) \<and>
   set (scan_keys ks pods podUp) \<subseteq> set podUp"
proof (intro conjI impI)
  assume a: "set ks = fst ` set podUp \<and> k \<in> fst ` set podUp"
  then have "(k \<notin> fst ` set (scan_keys ks pods podUp)) = started pods k"
    by (force simp: scan_keys_eq)
  then show "(k \<notin> fst ` set (scan_keys ks pods podUp)) =
      (\<exists>p \<in> set pods. (\<exists>a b. pod_Name p = a @ k @ b) \<and> pod_Phase p = PodRunning)"
    by (simp add: started_iff)
next
  show "Contains s k = (\<exists>a b. s = a @ k @ b)" by (rule Contains_iff)
next
  show "set (scan_keys ks pods podUp) \<subseteq> set podUp" by (auto simp: scan_keys_eq)
qed

theorem PodsStarted_scan_removes_iff_witness:
  "(set [''db'', ''web''] = fst ` set [(''web'', 0::int), (''db'', 0)] \<and>
    ''web'' \<in> fst ` set [(''web'', 0::int), (''db'', 0)]) \<and>
   scan_keys [''db'', ''web'']
     [\<lparr>pod_Name = ''webcache-xyz'', pod_Phase = ''Running''\<rparr>,
      \<lparr>pod_Name = ''db-7f9c'', pod_Phase = ''Pending''\<rparr>]
     [(''web'', 0), (''db'', 0)] = [(''db'', 0)] \<and>
   (\<exists>p \<in> set [\<lparr>pod_Name = ''webcache-xyz'', pod_Phase = ''Running''\<rparr>,
               \<lparr>pod_Name = ''db-7f9c'', pod_Phase = ''Pending''\<rparr>].
      (\<exists>a b. pod_Name p = a @ ''web'' @ b) \<and> pod_Phase p = PodRunning) \<and>
   Contains ''webcache-xyz'' ''web''"
proof -
  let ?pods = "[\<lparr>pod_Name = ''webcache-xyz'', pod_Phase = ''Running''\<rparr>,
      \<lparr>pod_Name = ''db-7f9c'', pod_Phase = ''Pending''\<rparr>]"
  let ?podUp = "[(''web'', 0::int), (''db'', 0)]"
  have run: "scan_keys [''db'', ''web''] ?pods ?podUp = [(''db'', 0)]"
    by (simp add: PodRunning_def HasPrefix_def)
  have c: "Contains ''webcache-xyz'' ''web''" by (simp add: HasPrefix_def)
  have h: "set [''db'', ''web''] = fst ` set ?podUp \<and> ''web'' \<in> fst ` set ?podUp" by auto
  from PodsStarted_scan_removes_iff
         [where ks = "[''db'', ''web'']" and podUp = ?podUp and k = "''web''" and pods = ?pods] h
  have "(''web'' \<notin> fst ` set (scan_keys [''db'', ''web''] ?pods ?podUp)) =
        (\<exists>p \<in> set ?pods. (\<exists>a b. pod_Name p = a @ ''web'' @ b) \<and> pod_Phase p = PodRunning)"
    by blast
  then have ex: "\<exists>p \<in> set ?pods. (\<exists>a b. pod_Name p = a @ ''web'' @ b) \<and> pod_Phase p = PodRunning"
    unfolding run by simp
  from h run ex c show ?thesis by blast
qed

text \<open>
  C4. The map \<open>getEndPoints\<close> returns holds an entry only for a declared service and port
  that match a live service by name and one of that service's ports; its key is
  \<open>serviceName:port\<close> and its value \<open>http://\<close>, the first address of the first node,
  \<open>:\<close> and the node port of the matching port. A declared entry has its key in the map
  exactly when it matches; one that matches nothing is left out, and the call still returns
  a map and no error. The keys of the map are distinct.
\<close>

theorem getEndPoints_only_live_endpoints:
  "(getEndPoints nodeList svcList namespace svcs = (Return m, calls) \<and> (k, v) \<in> set m \<longrightarrow>
      (\<exists>node nodes nodeIP addrs runningSvcs.
         nodeList = Inr (node # nodes) \<and> node_Addresses node = nodeIP # addrs \<and>
         svcList = Inr runningSvcs \<and>
         (\<exists>svc \<in> set svcs. \<exists>s \<in> set runningSvcs. \<exists>p \<in> set (svc_Ports s).
            svc_Name s = Name svc \<and> port_Port p = Port svc \<and>
            k = Name svc @ '':'' @ FormatInt (sint (Port svc)) \<and>
            v = ''http://'' @ nodeIP @ '':'' @ FormatInt (sint (port_NodePort p))))) \<and>
   (getEndPoints nodeList (Inr runningSvcs) namespace svcs = (Return m, calls) \<and> svc \<in> set svcs \<longrightarrow>
      (Name svc @ '':'' @ FormatInt (sint (Port svc)) \<in> fst ` set m) =
      (\<exists>s \<in> set runningSvcs. svc_Name s = Name svc \<and>
         (\<exists>p \<in> set (svc_Ports s). port_Port p = Port svc))) \<and>
   (getEndPoints nodeList svcList namespace svcs = (Return m, calls) \<longrightarrow> distinct (map fst m)) \<and>
   (node_Addresses node = nodeIP # addrs \<longrightarrow>
      (\<exists>m. getEndPoints (Inr (node # nodes)) (Inr runningSvcs) namespace svcs =
             (Return m, [ListNodes, ListServices namespace])))"
proof (intro conjI impI)
  assume a: "getEndPoints nodeList svcList namespace svcs = (Return m, calls) \<and> (k, v) \<in> set m"
  then obtain node nodes nodeIP addrs runningSvcs where
    n: "nodeList = Inr (node # nodes)" "node_Addresses node = nodeIP # addrs"
      "svcList = Inr runningSvcs" and m: "m = endpoints nodeIP runningSvcs svcs"
    by (auto simp: getEndPoints_def split: sum.splits list.splits)
  from a m have "(k, v) \<in> set (fold (\<lambda>svc endpoint. endpoint_services nodeIP svc runningSvcs endpoint) svcs [])"
    by (simp add: endpoints_def)
  from fold_services_entries [OF this]
  have "\<exists>svc \<in> set svcs. \<exists>s \<in> set runningSvcs. \<exists>p \<in> set (svc_Ports s).
            svc_Name s = Name svc \<and> port_Port p = Port svc \<and>
            k = Name svc @ '':'' @ FormatInt (sint (Port svc)) \<and>
            v = ''http://'' @ nodeIP @ '':'' @ FormatInt (sint (port_NodePort p))"
    by (auto simp: endpoint_key_def endpoint_url_def)
  with n show "\<exists>node nodes nodeIP addrs runningSvcs.
         nodeList = Inr (node # nodes) \<and> node_Addresses node = nodeIP # addrs \<and>
         svcList = Inr runningSvcs \<and>
         (\<exists>svc \<in> set svcs. \<exists>s \<in> set runningSvcs. \<exists>p \<in> set (svc_Ports s).
            svc_Name s = Name svc \<and> port_Port p = Port svc \<and>
            k = Name svc @ '':'' @ FormatInt (sint (Port svc)) \<and>
            v = ''http://'' @ nodeIP @ '':'' @ FormatInt (sint (port_NodePort p)))"
    by blast
next
  assume a: "getEndPoints nodeList (Inr runningSvcs) namespace svcs = (Return m, calls) \<and> svc \<in> set svcs"
  then obtain nodeIP where m: "m = endpoints nodeIP runningSvcs svcs"
    by (auto simp: getEndPoints_def split: sum.splits list.splits)
  have keys: "fst ` set m = endpoint_key ` {svc \<in> set svcs. matched runningSvcs svc}"
    unfolding m endpoints_def by (simp add: fold_services_keys)
  have "(endpoint_key svc \<in> fst ` set m) = matched runningSvcs svc"
  proof
    assume "endpoint_key svc \<in> fst ` set m"
    with keys obtain svc' where "svc' \<in> set svcs" "matched runningSvcs svc'"
      "endpoint_key svc = endpoint_key svc'" by auto
    with endpoint_key_inj [of svc svc'] matched_cong [of svc svc' runningSvcs]
    show "matched runningSvcs svc" by simp
  next
    assume "matched runningSvcs svc"
    with a keys show "endpoint_key svc \<in> fst ` set m" by auto
  qed
  then show "(Name svc @ '':'' @ FormatInt (sint (Port svc)) \<in> fst ` set m) =
      (\<exists>s \<in> set runningSvcs. svc_Name s = Name svc \<and>
         (\<exists>p \<in> set (svc_Ports s). port_Port p = Port svc))"
    by (simp add: endpoint_key_def matched_iff)
next
  assume "getEndPoints nodeList svcList namespace svcs = (Return m, calls)"
  then obtain nodeIP runningSvcs where "m = endpoints nodeIP runningSvcs svcs"
    by (auto simp: getEndPoints_def split: sum.splits list.splits)
  then show "distinct (map fst m)"
    by (simp add: endpoints_def fold_services_distinct)
next
  assume "node_Addresses node = nodeIP # addrs"
  then show "\<exists>m. getEndPoints (Inr (node # nodes)) (Inr runningSvcs) namespace svcs =
             (Return m, [ListNodes, ListServices namespace])"
    by (simp add: getEndPoints_def)
qed

theorem getEndPoints_only_live_endpoints_witness:
  "getEndPoints (Inr [\<lparr>node_Addresses = [''10.0.0.5'']\<rparr>])
     (Inr [\<lparr>svc_Name = ''svc'', svc_Ports = [\<lparr>port_Port = 8080, port_NodePort = 30080\<rparr>]\<rparr>])
     ''wordpress'' [\<lparr>Name = ''svc'', Port = 8080\<rparr>, \<lparr>Name = ''cache'', Port = 6379\<rparr>] =
     (Return [(''svc:8080'', ''http://10.0.0.5:30080'')], [ListNodes, ListServices ''wordpress'']) \<and>
   (''svc:8080'', ''http://10.0.0.5:30080'') \<in> set [(''svc:8080'', ''http://10.0.0.5:30080'')] \<and>
   \<lparr>Name = ''cache'', Port = 6379\<rparr>
     \<in> set [\<lparr>Name = ''svc'', Port = 8080\<rparr>, \<lparr>Name = ''cache'', Port = 6379\<rparr>] \<and>
   (''cache:6379'' \<in> fst ` set [(''svc:8080'', ''http://10.0.0.5:30080'')]) =
     (\<exists>s \<in> set [\<lparr>svc_Name = ''svc'', svc_Ports = [\<lparr>port_Port = 8080, port_NodePort = 30080\<rparr>]\<rparr>].
        svc_Name s = ''cache'' \<and> (\<exists>p \<in> set (svc_Ports s). port_Port p = 6379)) \<and>
   ''cache:6379'' \<notin> fst ` set [(''svc:8080'', ''http://10.0.0.5:30080'')] \<and>
   distinct (map fst [(''svc:8080'', ''http://10.0.0.5:30080'')])"
proof -
  let ?nodes = "Inr [\<lparr>node_Addresses = [''10.0.0.5'']\<rparr>] :: error + Node list"
  let ?live = "[\<lparr>svc_Name = ''svc'', svc_Ports = [\<lparr>port_Port = 8080, port_NodePort = 30080\<rparr>]\<rparr>]"
  let ?svcs = "[\<lparr>Name = ''svc'', Port = 8080\<rparr>, \<lparr>Name = ''cache'', Port = 6379\<rparr>]"
  let ?m = "[(''svc:8080'', ''http://10.0.0.5:30080'')]"
  have run: "getEndPoints ?nodes (Inr ?live) ''wordpress'' ?svcs =
      (Return ?m, [ListNodes, ListServices ''wordpress''])"
    by (simp add: getEndPoints_def endpoints_def endpoint_services_def endpoint_ports_def
        endpoint_key_def endpoint_url_def FormatInt_def digits.simps digit_char_def
        decimal_digits_def)
  have fmt: "FormatInt (sint (6379 :: 32 word)) = ''6379''"
    by (simp add: FormatInt_def digits.simps digit_char_def decimal_digits_def)
  have h: "(''svc:8080'', ''http://10.0.0.5:30080'') \<in> set ?m"
    "\<lparr>Name = ''cache'', Port = 6379\<rparr> \<in> set ?svcs" "''cache:6379'' \<notin> fst ` set ?m"
    by simp_all
  from getEndPoints_only_live_endpoints
         [where nodeList = ?nodes and svcList = "Inr ?live" and runningSvcs = ?live
            and namespace = "''wordpress''" and svcs = ?svcs and m = ?m
            and calls = "[ListNodes, ListServices ''wordpress'']"
            and svc = "\<lparr>Name = ''cache'', Port = 6379\<rparr>"
            and k = "''svc:8080''" and v = "''http://10.0.0.5:30080''"] run h
  have iff: "(''cache'' @ '':'' @ FormatInt (sint (6379 :: 32 word)) \<in> fst ` set ?m) =
     (\<exists>s \<in> set ?live. svc_Name s = ''cache'' \<and> (\<exists>p \<in> set (svc_Ports s). port_Port p = 6379))"
    and d: "distinct (map fst ?m)"
    by simp_all
  from iff fmt
  have "(''cache:6379'' \<in> fst ` set ?m) =
     (\<exists>s \<in> set ?live. svc_Name s = ''cache'' \<and> (\<exists>p \<in> set (svc_Ports s). port_Port p = 6379))"
    by simp
  with run h d show ?thesis by blast
qed

text \<open>
  C5. \<open>RunKapp\<close> runs the generator exactly once, with the argument vector \<open>generate\<close>
  followed, in the order of the input, by \<open>-f\<close> and the expanded path of each file; with
  no file the arguments are \<open>generate\<close> alone. When the run ends without error the result
  is the bytes of its standard output; otherwise it is the error
  \<^verbatim>\<open>error running %q\n%s %s\<close> built from \<open>kapp\<close> and the arguments joined by spaces, the
  text of the standard error, and the error of the run.
\<close>

theorem RunKapp_invokes_generator_once:
  "snd (RunKapp KappLoc ExpandEnv Run files) =
     [Exec KappLoc (''generate'' # concat (map (\<lambda>file. [''-f'', ExpandEnv file]) files))] \<and>
   snd (RunKapp KappLoc ExpandEnv Run []) = [Exec KappLoc [''generate'']] \<and>
   (run_err (Run KappLoc (''generate'' # concat (map (\<lambda>file. [''-f'', ExpandEnv file]) files))) = None
     \<longrightarrow> fst (RunKapp KappLoc ExpandEnv Run files) =
           Inr (stdout (Run KappLoc
                  (''generate'' # concat (map (\<lambda>file. [''-f'', ExpandEnv file]) files))))) \<and>
   (run_err (Run KappLoc (''generate'' # concat (map (\<lambda>file. [''-f'', ExpandEnv file]) files)))
      = Some err
     \<longrightarrow> fst (RunKapp KappLoc ExpandEnv Run files) =
           Inl (Errorf (''error running %q'' @ [CHR 0x0A] @ ''%s %s'')
                  [ArgS (''kapp '' @
                         Join (''generate'' # concat (map (\<lambda>file. [''-f'', ExpandEnv file]) files))
                           '' ''),
                   ArgS (stderr (Run KappLoc
                     (''generate'' # concat (map (\<lambda>file. [''-f'', ExpandEnv file]) files)))),
                   ArgE err]))"
  by (simp add: RunKapp_def RunKapp_args_eq Let_def)

theorem RunKapp_invokes_generator_once_witness:
  "RunKapp ''/usr/bin/kapp'' (\<lambda>file. ''/go'' @ file)
     (\<lambda>loc args. \<lparr>stdout = ''kind: Deployment'', stderr = [], run_err = None\<rparr>)
     [''/db.yaml'', ''/web.yaml''] =
     (Inr ''kind: Deployment'',
      [Exec ''/usr/bin/kapp'' [''generate'', ''-f'', ''/go/db.yaml'', ''-f'', ''/go/web.yaml'']]) \<and>
   RunKapp ''/usr/bin/kapp'' (\<lambda>file. ''/go'' @ file)
     (\<lambda>loc args. \<lparr>stdout = [], stderr = ''no such file'', run_err = Some (Ext ''exit status 1'')\<rparr>)
     [''/db.yaml''] =
     (Inl (Errorf (''error running %q'' @ [CHR 0x0A] @ ''%s %s'')
             [ArgS ''kapp generate -f /go/db.yaml'', ArgS ''no such file'',
              ArgE (Ext ''exit status 1'')]),
      [Exec ''/usr/bin/kapp'' [''generate'', ''-f'', ''/go/db.yaml'']])"
proof -
  let ?ok = "\<lambda>(loc :: string) (args :: string list).
               \<lparr>stdout = ''kind: Deployment'', stderr = [], run_err = None\<rparr>"
  let ?ko = "\<lambda>(loc :: string) (args :: string list).
               \<lparr>stdout = [], stderr = ''no such file'', run_err = Some (Ext ''exit status 1'')\<rparr>"
  let ?env = "\<lambda>file. ''/go'' @ file"
  from RunKapp_invokes_generator_once
         [where KappLoc = "''/usr/bin/kapp''" and ExpandEnv = ?env and Run = ?ok
            and files = "[''/db.yaml'', ''/web.yaml'']"]
  have a: "snd (RunKapp ''/usr/bin/kapp'' ?env ?ok [''/db.yaml'', ''/web.yaml'']) =
      [Exec ''/usr/bin/kapp'' [''generate'', ''-f'', ''/go/db.yaml'', ''-f'', ''/go/web.yaml'']]"
    and b: "fst (RunKapp ''/usr/bin/kapp'' ?env ?ok [''/db.yaml'', ''/web.yaml'']) =
      Inr ''kind: Deployment''"
    by simp_all
  from RunKapp_invokes_generator_once
         [where KappLoc = "''/usr/bin/kapp''" and ExpandEnv = ?env and Run = ?ko
            and files = "[''/db.yaml'']" and err = "Ext ''exit status 1''"]
  have c: "snd (RunKapp ''/usr/bin/kapp'' ?env ?ko [''/db.yaml'']) =
      [Exec ''/usr/bin/kapp'' [''generate'', ''-f'', ''/go/db.yaml'']]"
    and d: "fst (RunKapp ''/usr/bin/kapp'' ?env ?ko [''/db.yaml'']) =
      Inl (Errorf (''error running %q'' @ [CHR 0x0A] @ ''%s %s'')
             [ArgS ''kapp generate -f /go/db.yaml'', ArgS ''no such file'',
              ArgE (Ext ''exit status 1'')])"
    by simp_all
  from a b c d show ?thesis by (simp add: prod_eq_iff)
qed

text \<open>
  C6. When every expected name is contained in the name of a running pod of the first
  listing, \<open>PodsStarted\<close> returns \<^verbatim>\<open>nil\<close> after that single listing: the calls made are
  the one \<^verbatim>\<open>List\<close> and no sleep, whatever later listings would hold.
\<close>

theorem PodsStarted_ready_at_first_listing:
  "\<forall>k \<in> set podNames. \<exists>p \<in> set pods. Contains (pod_Name p) k \<and> pod_Phase p = PodRunning \<Longrightarrow>
   PodsStarted namespace podNames (Inr pods # rest) = Some (None, [], [ListPods namespace])"
proof -
  assume a: "\<forall>k \<in> set podNames. \<exists>p \<in> set pods. Contains (pod_Name p) k \<and> pod_Phase p = PodRunning"
  have keys: "fst ` set (podUp_init podNames) = set podNames"
    by (simp add: podUp_init_def podUp_init_keys)
  have "scan_keys (map fst (podUp_init podNames)) pods (podUp_init podNames) = []"
    unfolding scan_keys_eq filter_empty_conv
  proof
    fix kv
    assume "kv \<in> set (podUp_init podNames)"
    then have "fst kv \<in> set podNames" using keys by force
    with a have "started pods (fst kv)" by (auto simp: started_def list_ex_iff)
    with \<open>kv \<in> set (podUp_init podNames)\<close>
    show "\<not> \<not> (fst kv \<in> set (map fst (podUp_init podNames)) \<and> started pods (fst kv))" by simp
  qed
  then show ?thesis by (simp add: PodsStarted_def)
qed

theorem PodsStarted_ready_at_first_listing_witness:
  "PodsStarted ''wordpress'' [''web'', ''db'']
     (Inr [\<lparr>pod_Name = ''web-abc123'', pod_Phase = ''Running''\<rparr>,
           \<lparr>pod_Name = ''db-7f9c'', pod_Phase = ''Running''\<rparr>] # []) =
     Some (None, [], [ListPods ''wordpress''])"
proof -
  let ?pods = "[\<lparr>pod_Name = ''web-abc123'', pod_Phase = ''Running''\<rparr>,
           \<lparr>pod_Name = ''db-7f9c'', pod_Phase = ''Running''\<rparr>]"
  have "\<forall>k \<in> set [''web'', ''db'']. \<exists>p \<in> set ?pods. Contains (pod_Name p) k \<and> pod_Phase p = PodRunning"
    by (simp add: PodRunning_def HasPrefix_def)
  from PodsStarted_ready_at_first_listing [OF this] show ?thesis .
qed


text \<open>
  C7. Called with a map of zero entries, \<open>pingEndPoints\<close> returns \<^verbatim>\<open>nil\<close> at once and
  issues no HTTP request: whatever the probes would answer, the result is success and the
  list of calls made is empty.
\<close>

theorem pingEndPoints_empty_map:
  "pingEndPoints [] ps = Some (None, [], [])"
  by (simp add: pingEndPoints_def pingEndPoints_for.simps [of "[]"])

text \<open>
  C8. A probe that fails at the request level does not abort the poll: the failure is
  logged, the poller sleeps one second, the map is left as it is and the pass goes on with
  the entries not visited yet. With request failures only the poller never returns; a run
  that returned either found the map empty or got a status other than \<open>200 OK\<close> as its
  last probe; and an entry whose URL never answered \<open>200 OK\<close> is still in the map.
\<close>

theorem pingEndPoints_request_failure_retries:
  "(todo \<noteq> [] \<longrightarrow>
      pingEndPoints_range todo ep ((c, GetErr err) # ps) tr =
        pingEndPoints_range (snd (range_next c todo)) ep ps
          (tr @ [HttpGet 5 (snd (fst (range_next c todo))) (GetErr err),
                 Log LDebug ''error while making http request %q for service %q, err: %v''
                   [ArgS (snd (fst (range_next c todo))), ArgS (fst (fst (range_next c todo))),
                    ArgE err],
                 Sleep 1])) \<and>
   (ep \<noteq> [] \<and> (\<forall>p \<in> set ps. request_failed (snd p)) \<longrightarrow> pingEndPoints ep ps = None) \<and>
   (distinct (map fst ep) \<and> pingEndPoints ep ps = Some (res, ep', tr') \<longrightarrow>
      (res = None \<and> ep' = []) \<or>
      (\<exists>e u s tr0. res = Some (Errorf ''for service %q got %q'' [ArgS e, ArgS s]) \<and>
         s \<noteq> ''200 OK'' \<and> tr' = tr0 @ [HttpGet 5 u (Status s)])) \<and>
   (distinct (map fst ep) \<and> pingEndPoints ep ps = Some (res, ep', tr') \<and>
    (e, u) \<in> set ep \<and> HttpGet 5 u (Status ''200 OK'') \<notin> set tr' \<longrightarrow> (e, u) \<in> set ep')"
proof (intro conjI impI)
  assume "todo \<noteq> []"
  then obtain x xs where "todo = x # xs" by (cases todo) auto
  then show "pingEndPoints_range todo ep ((c, GetErr err) # ps) tr =
        pingEndPoints_range (snd (range_next c todo)) ep ps
          (tr @ [HttpGet 5 (snd (fst (range_next c todo))) (GetErr err),
                 Log LDebug ''error while making http request %q for service %q, err: %v''
                   [ArgS (snd (fst (range_next c todo))), ArgS (fst (fst (range_next c todo))),
                    ArgE err],
                 Sleep 1])"
    by (simp split: prod.splits)
next
  assume "ep \<noteq> [] \<and> (\<forall>p \<in> set ps. request_failed (snd p))"
  then show "pingEndPoints ep ps = None"
    by (simp add: pingEndPoints_def pingEndPoints_for_retry_only)
next
  assume a: "distinct (map fst ep) \<and> pingEndPoints ep ps = Some (res, ep', tr')"
  then have "ping_final ep res ep' tr'" and "res = None \<longrightarrow> ep' = []"
    using pingEndPoints_final by blast+
  then show "(res = None \<and> ep' = []) \<or>
      (\<exists>e u s tr0. res = Some (Errorf ''for service %q got %q'' [ArgS e, ArgS s]) \<and>
         s \<noteq> ''200 OK'' \<and> tr' = tr0 @ [HttpGet 5 u (Status s)])"
    by (cases res) (auto simp: ping_final_def)
next
  assume a: "distinct (map fst ep) \<and> pingEndPoints ep ps = Some (res, ep', tr') \<and>
    (e, u) \<in> set ep \<and> HttpGet 5 u (Status ''200 OK'') \<notin> set tr'"
  then have fin: "ping_final ep res ep' tr'" using pingEndPoints_final by blast
  show "(e, u) \<in> set ep'"
  proof (rule ccontr)
    assume out: "(e, u) \<notin> set ep'"
    have "HttpGet 5 u (Status ''200 OK'') \<in> set tr'"
    proof (cases res)
      case None
      with fin a out show ?thesis by (auto simp: ping_final_def ping_inv_def)
    next
      case (Some err)
      with fin obtain tr0 ev where "tr' = tr0 @ [ev]" "ping_inv ep ep' tr0"
        by (auto simp: ping_final_def)
      with a out show ?thesis by (auto simp: ping_inv_def)
    qed
    with a show False by simp
  qed
qed

theorem pingEndPoints_request_failure_retries_witness:
  "pingEndPoints [(''wordpress:8080'', ''http://10.0.0.5:30080'')]
     [(0, GetErr (Ext ''connection refused'')), (0, Status ''200 OK'')] =
     Some (None, [],
       [HttpGet 5 ''http://10.0.0.5:30080'' (GetErr (Ext ''connection refused'')),
        Log LDebug ''error while making http request %q for service %q, err: %v''
          [ArgS ''http://10.0.0.5:30080'', ArgS ''wordpress:8080'', ArgE (Ext ''connection refused'')],
        Sleep 1,
        HttpGet 5 ''http://10.0.0.5:30080'' (Status ''200 OK''),
        Log LDebug ''%q is running!'' [ArgS ''wordpress:8080'']]) \<and>
   pingEndPoints_range [(''wordpress:8080'', ''http://10.0.0.5:30080'')]
       [(''wordpress:8080'', ''http://10.0.0.5:30080'')]
       [(0, GetErr (Ext ''connection refused''))] [] =
     Some (None, [(''wordpress:8080'', ''http://10.0.0.5:30080'')], [],
       [HttpGet 5 ''http://10.0.0.5:30080'' (GetErr (Ext ''connection refused'')),
        Log LDebug ''error while making http request %q for service %q, err: %v''
          [ArgS ''http://10.0.0.5:30080'', ArgS ''wordpress:8080'', ArgE (Ext ''connection refused'')],
        Sleep 1]) \<and>
   pingEndPoints [(''wordpress:8080'', ''http://10.0.0.5:30080'')]
     [(0, GetErr (Ext ''connection refused''))] = None \<and>
   pingEndPoints [(''wordpress:8080'', ''http://10.0.0.5:30080''), (''db:3306'', ''http://10.0.0.5:30081'')]
     [(0, GetErr (Ext ''connection refused'')), (0, Status ''503 Service Unavailable'')] =
     Some (Some (Errorf ''for service %q got %q'' [ArgS ''db:3306'', ArgS ''503 Service Unavailable'']),
       [(''wordpress:8080'', ''http://10.0.0.5:30080''), (''db:3306'', ''http://10.0.0.5:30081'')],
       [HttpGet 5 ''http://10.0.0.5:30080'' (GetErr (Ext ''connection refused'')),
        Log LDebug ''error while making http request %q for service %q, err: %v''
          [ArgS ''http://10.0.0.5:30080'', ArgS ''wordpress:8080'', ArgE (Ext ''connection refused'')],
        Sleep 1,
        HttpGet 5 ''http://10.0.0.5:30081'' (Status ''503 Service Unavailable'')]) \<and>
   (''wordpress:8080'', ''http://10.0.0.5:30080'')
     \<in> set [(''wordpress:8080'', ''http://10.0.0.5:30080''), (''db:3306'', ''http://10.0.0.5:30081'')]"
proof -
  let ?w = "(''wordpress:8080'', ''http://10.0.0.5:30080'')"
  let ?d = "(''db:3306'', ''http://10.0.0.5:30081'')"
  let ?x = "Ext ''connection refused''"
  let ?fail = "[HttpGet 5 ''http://10.0.0.5:30080'' (GetErr ?x),
        Log LDebug ''error while making http request %q for service %q, err: %v''
          [ArgS ''http://10.0.0.5:30080'', ArgS ''wordpress:8080'', ArgE ?x],
        Sleep 1]"
  have run1: "pingEndPoints [?w] [(0, GetErr ?x), (0, Status ''200 OK'')] =
     Some (None, [],
       ?fail @ [HttpGet 5 ''http://10.0.0.5:30080'' (Status ''200 OK''),
                Log LDebug ''%q is running!'' [ArgS ''wordpress:8080'']])"
    by (simp add: pingEndPoints_def pingEndPoints_for.simps range_next_def)
  have run2: "pingEndPoints [?w, ?d] [(0, GetErr ?x), (0, Status ''503 Service Unavailable'')] =
     Some (Some (Errorf ''for service %q got %q'' [ArgS ''db:3306'', ArgS ''503 Service Unavailable'']),
       [?w, ?d], ?fail @ [HttpGet 5 ''http://10.0.0.5:30081'' (Status ''503 Service Unavailable'')])"
    by (simp add: pingEndPoints_def pingEndPoints_for.simps range_next_def)
  have rest: "pingEndPoints_range [] [?w] [] ?fail = Some (None, [?w], [], ?fail)"
    by simp
  have h: "[?w] \<noteq> []" "\<forall>p \<in> set [(0::nat, GetErr ?x)]. request_failed (snd p)"
    "distinct (map fst [?w, ?d])" "?w \<in> set [?w, ?d]"
    "HttpGet 5 ''http://10.0.0.5:30080'' (Status ''200 OK'')
       \<notin> set (?fail @ [HttpGet 5 ''http://10.0.0.5:30081'' (Status ''503 Service Unavailable'')])"
    by simp_all
  from pingEndPoints_request_failure_retries
         [where todo = "[?w]" and ep = "[?w]" and c = 0 and err = ?x and ps = "[(0, GetErr ?x)]"
            and tr = "[]"]
       pingEndPoints_request_failure_retries
         [where ep = "[?w, ?d]"
            and ps = "[(0, GetErr ?x), (0, Status ''503 Service Unavailable'')]"
            and res = "Some (Errorf ''for service %q got %q''
                               [ArgS ''db:3306'', ArgS ''503 Service Unavailable''])"
            and ep' = "[?w, ?d]"
            and tr' = "?fail @ [HttpGet 5 ''http://10.0.0.5:30081''
                                  (Status ''503 Service Unavailable'')]"
            and e = "''wordpress:8080''" and u = "''http://10.0.0.5:30080''"]
       run1 run2 rest h
  show ?thesis by (simp add: range_next_def)
qed

text \<open>
  C9. When the node listing succeeds with no node, or with a first node that has no
  address, \<open>getEndPoints\<close> panics with an index out of range, before the services are
  listed, and it panics in no other case: neither \<^verbatim>\<open>Items[0]\<close> nor \<^verbatim>\<open>Addresses[0]\<close> is
  guarded, and no error is returned in their place.
\<close>

theorem getEndPoints_panics_without_node_address:
  "getEndPoints (Inr []) svcList namespace svcs = (Panic (IndexOutOfRange 0 0), [ListNodes]) \<and>
   getEndPoints (Inr (\<lparr>node_Addresses = []\<rparr> # nodes)) svcList namespace svcs =
     (Panic (IndexOutOfRange 0 0), [ListNodes]) \<and>
   (\<exists>p. fst (getEndPoints nodeList svcList namespace svcs) = Panic p) =
     (\<exists>nodes. nodeList = Inr nodes \<and> (nodes = [] \<or> node_Addresses (hd nodes) = []))"
proof (intro conjI)
  show "(\<exists>p. fst (getEndPoints nodeList svcList namespace svcs) = Panic p) =
     (\<exists>nodes. nodeList = Inr nodes \<and> (nodes = [] \<or> node_Addresses (hd nodes) = []))"
    by (auto simp: getEndPoints_def split: sum.splits list.splits)
qed (simp_all add: getEndPoints_def)

text \<open>
  C10. In both polling loops the map of remaining work only shrinks. For \<open>PodsStarted\<close>:
  the keys left are among the names given, a name is gone only if some listing held a
  running pod whose name contains it, a scan adds nothing, the iteration that scans a
  listing returns \<^verbatim>\<open>nil\<close> exactly when the scan leaves the map empty, a run that returned
  \<^verbatim>\<open>nil\<close> left the map empty, and with at least one name given a run that left the map
  empty returned \<^verbatim>\<open>nil\<close>. For \<open>pingEndPoints\<close>: a pass adds nothing, the outer loop
  returns \<^verbatim>\<open>nil\<close> after a pass exactly when the pass leaves the map empty, the entries left
  are entries of the map given, an entry is gone only after its URL answered \<open>200 OK\<close>,
  every entry logged as running is gone, the run returned \<^verbatim>\<open>nil\<close> exactly when the map
  is empty, and when it returned an error the entry the error names is still in the map
  and its probe is the last call made.
\<close>

theorem polling_maps_only_shrink:
  "(PodsStarted namespace podNames ls = Some (r, podUp', trp) \<longrightarrow>
      fst ` set podUp' \<subseteq> set podNames \<and>
      (\<forall>k \<in> set podNames. k \<notin> fst ` set podUp' \<longrightarrow>
         (\<exists>pods. Inr pods \<in> set ls \<and>
            (\<exists>p \<in> set pods. Contains (pod_Name p) k \<and> pod_Phase p = PodRunning))) \<and>
      (r = None \<longrightarrow> podUp' = []) \<and>
      (podNames \<noteq> [] \<and> podUp' = [] \<longrightarrow> r = None)) \<and>
   set (scan_keys (map fst podUp) pods podUp) \<subseteq> set podUp \<and>
   (PodsStarted_for namespace podUp (Inr pods # ls) tr =
      Some (None, scan_keys (map fst podUp) pods podUp, tr @ [ListPods namespace])) =
     (scan_keys (map fst podUp) pods podUp = []) \<and>
   (pingEndPoints_range todo ep ps tr = Some (x, epa, psa, tra) \<longrightarrow> set epa \<subseteq> set ep) \<and>
   (pingEndPoints_range ep ep ps tr = Some (None, epa, psa, tra) \<longrightarrow>
      (pingEndPoints_for ep ps tr = Some (None, epa, tra)) = (epa = [])) \<and>
   (distinct (map fst ep) \<and> pingEndPoints ep ps = Some (res, ep', tr') \<longrightarrow>
      set ep' \<subseteq> set ep \<and>
      (\<forall>e u. (e, u) \<in> set ep \<and> (e, u) \<notin> set ep' \<longrightarrow>
         HttpGet 5 u (Status ''200 OK'') \<in> set tr' \<and>
         Log LDebug ''%q is running!'' [ArgS e] \<in> set tr') \<and>
      (\<forall>e. Log LDebug ''%q is running!'' [ArgS e] \<in> set tr' \<longrightarrow> e \<notin> fst ` set ep') \<and>
      (res = None) = (ep' = []) \<and>
      (\<forall>err. res = Some err \<longrightarrow>
         (\<exists>e u s. err = Errorf ''for service %q got %q'' [ArgS e, ArgS s] \<and> s \<noteq> ''200 OK'' \<and>
            (e, u) \<in> set ep' \<and> tr' \<noteq> [] \<and> last tr' = HttpGet 5 u (Status s))))"
proof (intro conjI impI)
  assume run: "PodsStarted namespace podNames ls = Some (r, podUp', trp)"
  have keys: "fst ` set (podUp_init podNames) = set podNames"
    by (simp add: podUp_init_def podUp_init_keys)
  from run have run': "PodsStarted_for namespace (podUp_init podNames) ls [] = Some (r, podUp', trp)"
    by (simp add: PodsStarted_def)
  from PodsStarted_for_shrinks [OF run']
  have sub: "set podUp' \<subseteq> set (podUp_init podNames)"
    and gone: "\<forall>kv \<in> set (podUp_init podNames). kv \<notin> set podUp' \<longrightarrow>
          (\<exists>pods. Inr pods \<in> set ls \<and> started pods (fst kv))"
    and emp: "r = None \<longrightarrow> podUp' = []"
    by blast+
  from sub keys show "fst ` set podUp' \<subseteq> set podNames" by blast
  show "\<forall>k \<in> set podNames. k \<notin> fst ` set podUp' \<longrightarrow>
         (\<exists>pods. Inr pods \<in> set ls \<and>
            (\<exists>p \<in> set pods. Contains (pod_Name p) k \<and> pod_Phase p = PodRunning))"
  proof (intro ballI impI)
    fix k
    assume "k \<in> set podNames" and out: "k \<notin> fst ` set podUp'"
    with keys have "k \<in> fst ` set (podUp_init podNames)" by simp
    then obtain kv where kv: "kv \<in> set (podUp_init podNames)" "fst kv = k" by (auto simp: image_iff)
    with out have "kv \<notin> set podUp'" by force
    with gone kv obtain pods where "Inr pods \<in> set ls" "started pods k" by blast
    then show "\<exists>pods. Inr pods \<in> set ls \<and>
            (\<exists>p \<in> set pods. Contains (pod_Name p) k \<and> pod_Phase p = PodRunning)"
      by (auto simp: started_def list_ex_iff)
  qed
  from emp show "r = None \<Longrightarrow> podUp' = []" by simp
  show "r = None" if "podNames \<noteq> [] \<and> podUp' = []"
  proof (cases r)
    case None
    then show ?thesis .
  next
    case (Some err)
    from that keys have "podUp_init podNames \<noteq> []" by auto
    from PodsStarted_for_error_nonempty [OF run' [unfolded Some] this] that
    show ?thesis by simp
  qed
next
  show "set (scan_keys (map fst podUp) pods podUp) \<subseteq> set podUp" by (auto simp: scan_keys_eq)
next
  show "(PodsStarted_for namespace podUp (Inr pods # ls) tr =
      Some (None, scan_keys (map fst podUp) pods podUp, tr @ [ListPods namespace])) =
     (scan_keys (map fst podUp) pods podUp = [])"
    by (rule PodsStarted_for_break_iff)
next
  assume "pingEndPoints_range todo ep ps tr = Some (x, epa, psa, tra)"
  then show "set epa \<subseteq> set ep" by (rule pingEndPoints_range_keys)
next
  assume "pingEndPoints_range ep ep ps tr = Some (None, epa, psa, tra)"
  then show "(pingEndPoints_for ep ps tr = Some (None, epa, tra)) = (epa = [])"
    by (rule pingEndPoints_for_break_iff)
next
  assume a: "distinct (map fst ep) \<and> pingEndPoints ep ps = Some (res, ep', tr')"
  then have fin: "ping_final ep res ep' tr'" and emp: "res = None \<longrightarrow> ep' = []"
    using pingEndPoints_final by blast+
  have inv: "\<exists>evs tr0. tr' = tr0 @ evs \<and> length evs \<le> 1 \<and> ping_inv ep ep' tr0"
  proof (cases res)
    case None
    with fin have "ping_inv ep ep' tr'" by (simp add: ping_final_def)
    then have "tr' = tr' @ [] \<and> length ([] :: event list) \<le> 1 \<and> ping_inv ep ep' tr'" by simp
    then show ?thesis by blast
  next
    case (Some err)
    with fin obtain ev tr0 where "tr' = tr0 @ [ev]" "ping_inv ep ep' tr0"
      by (auto simp: ping_final_def)
    then have "tr' = tr0 @ [ev] \<and> length [ev] \<le> 1 \<and> ping_inv ep ep' tr0" by simp
    then show ?thesis by blast
  qed
  then obtain evs tr0 where tr': "tr' = tr0 @ evs" and inv0: "ping_inv ep ep' tr0" by blast
  from inv0 show "set ep' \<subseteq> set ep" by (simp add: ping_inv_def)
  from inv0 tr' show "\<forall>e u. (e, u) \<in> set ep \<and> (e, u) \<notin> set ep' \<longrightarrow>
         HttpGet 5 u (Status ''200 OK'') \<in> set tr' \<and>
         Log LDebug ''%q is running!'' [ArgS e] \<in> set tr'"
    by (auto simp: ping_inv_def)
  show "\<forall>e. Log LDebug ''%q is running!'' [ArgS e] \<in> set tr' \<longrightarrow> e \<notin> fst ` set ep'"
  proof (cases res)
    case None
    with fin show ?thesis by (simp add: ping_final_def ping_inv_def)
  next
    case (Some err)
    with fin obtain ev tra where t: "tr' = tra @ [HttpGet 5 (fst ev) (Status (snd ev))]"
      and i: "ping_inv ep ep' tra"
      by (auto simp: ping_final_def)
    from i have "\<forall>e. Log LDebug ''%q is running!'' [ArgS e] \<in> set tra \<longrightarrow> e \<notin> fst ` set ep'"
      by (simp add: ping_inv_def)
    with t show ?thesis by simp
  qed
  show "(res = None) = (ep' = [])"
  proof (cases res)
    case None
    with emp show ?thesis by simp
  next
    case (Some err)
    with fin show ?thesis by (auto simp: ping_final_def)
  qed
  show "\<forall>err. res = Some err \<longrightarrow>
         (\<exists>e u s. err = Errorf ''for service %q got %q'' [ArgS e, ArgS s] \<and> s \<noteq> ''200 OK'' \<and>
            (e, u) \<in> set ep' \<and> tr' \<noteq> [] \<and> last tr' = HttpGet 5 u (Status s))"
    using fin by (auto simp: ping_final_def)
qed


theorem polling_maps_only_shrink_witness:
  "PodsStarted ''wordpress'' [''web'']
     [Inr [\<lparr>pod_Name = ''web-abc123'', pod_Phase = ''Pending''\<rparr>],
      Inr [\<lparr>pod_Name = ''web-abc123'', pod_Phase = ''Running''\<rparr>]] =
     Some (None, [], [ListPods ''wordpress'', Sleep 1, ListPods ''wordpress'']) \<and>
   (\<exists>pods. (Inr pods :: error + Pod list)
        \<in> set [Inr [\<lparr>pod_Name = ''web-abc123'', pod_Phase = ''Pending''\<rparr>],
                              Inr [\<lparr>pod_Name = ''web-abc123'', pod_Phase = ''Running''\<rparr>]] \<and>
      (\<exists>p \<in> set pods. Contains (pod_Name p) ''web'' \<and> pod_Phase p = PodRunning)) \<and>
   pingEndPoints [(''wordpress:8080'', ''http://10.0.0.5:30080''), (''db:3306'', ''http://10.0.0.5:30081'')]
     [(0, Status ''200 OK''), (0, Status ''503 Service Unavailable'')] =
     Some (Some (Errorf ''for service %q got %q'' [ArgS ''db:3306'', ArgS ''503 Service Unavailable'']),
           [(''db:3306'', ''http://10.0.0.5:30081'')],
           [HttpGet 5 ''http://10.0.0.5:30080'' (Status ''200 OK''),
            Log LDebug ''%q is running!'' [ArgS ''wordpress:8080''],
            HttpGet 5 ''http://10.0.0.5:30081'' (Status ''503 Service Unavailable'')]) \<and>
   pingEndPoints_range [(''wordpress:8080'', ''http://10.0.0.5:30080'')]
     [(''wordpress:8080'', ''http://10.0.0.5:30080'')] [(0, Status ''200 OK'')] [] =
     Some (None, [], [],
           [HttpGet 5 ''http://10.0.0.5:30080'' (Status ''200 OK''),
            Log LDebug ''%q is running!'' [ArgS ''wordpress:8080'']]) \<and>
   pingEndPoints_for [(''wordpress:8080'', ''http://10.0.0.5:30080'')] [(0, Status ''200 OK'')] [] =
     Some (None, [],
           [HttpGet 5 ''http://10.0.0.5:30080'' (Status ''200 OK''),
            Log LDebug ''%q is running!'' [ArgS ''wordpress:8080'']])"
proof -
  let ?w = "(''wordpress:8080'', ''http://10.0.0.5:30080'')"
  let ?d = "(''db:3306'', ''http://10.0.0.5:30081'')"
  let ?ls = "[Inr [\<lparr>pod_Name = ''web-abc123'', pod_Phase = ''Pending''\<rparr>],
              Inr [\<lparr>pod_Name = ''web-abc123'', pod_Phase = ''Running''\<rparr>]]
             :: (error + Pod list) list"
  let ?ok = "[HttpGet 5 ''http://10.0.0.5:30080'' (Status ''200 OK''),
              Log LDebug ''%q is running!'' [ArgS ''wordpress:8080'']]"
  let ?err = "Some (Errorf ''for service %q got %q''
                      [ArgS ''db:3306'', ArgS ''503 Service Unavailable''])"
  let ?tr = "?ok @ [HttpGet 5 ''http://10.0.0.5:30081'' (Status ''503 Service Unavailable'')]"
  have pods: "PodsStarted ''wordpress'' [''web''] ?ls =
      Some (None, [], [ListPods ''wordpress'', Sleep 1, ListPods ''wordpress''])"
    by (simp add: PodsStarted_def podUp_init_def PodRunning_def HasPrefix_def)
  have ping: "pingEndPoints [?w, ?d] [(0, Status ''200 OK''), (0, Status ''503 Service Unavailable'')]
      = Some (?err, [?d], ?tr)"
    by (simp add: pingEndPoints_def pingEndPoints_for.simps range_next_def)
  have pass: "pingEndPoints_range [?w] [?w] [(0, Status ''200 OK'')] [] = Some (None, [], [], ?ok)"
    by (simp add: range_next_def)
  have d: "distinct (map fst [?w, ?d])" by simp
  have a: "\<exists>pods. Inr pods \<in> set ?ls \<and>
      (\<exists>p \<in> set pods. Contains (pod_Name p) ''web'' \<and> pod_Phase p = PodRunning)"
  proof -
    note pods_part = polling_maps_only_shrink
      [where namespace = "''wordpress''" and podNames = "[''web'']" and ls = ?ls and r = None
         and podUp' = "[]" and trp = "[ListPods ''wordpress'', Sleep 1, ListPods ''wordpress'']",
       THEN conjunct1, rule_format, OF pods]
    note gone = pods_part [THEN conjunct2, THEN conjunct1]
    have "''web'' \<in> set [''web'']" "''web'' \<notin> fst ` set ([] :: (string \<times> int) list)"
      by simp_all
    from gone [rule_format, OF this] show ?thesis .
  qed
  note pass_part = polling_maps_only_shrink
    [where ep = "[?w]" and ps = "[(0, Status ''200 OK'')]" and tr = "[]" and epa = "[]"
       and psa = "[]" and tra = ?ok,
     THEN conjunct2, THEN conjunct2, THEN conjunct2, THEN conjunct2, THEN conjunct1,
     rule_format, OF pass]
  then have b: "pingEndPoints_for [?w] [(0, Status ''200 OK'')] [] = Some (None, [], ?ok)"
    by simp
  have dp: "distinct (map fst [?w, ?d]) \<and>
      pingEndPoints [?w, ?d] [(0, Status ''200 OK''), (0, Status ''503 Service Unavailable'')]
        = Some (?err, [?d], ?tr)"
    using d ping by simp
  note ping_part = polling_maps_only_shrink
    [where ep = "[?w, ?d]" and ps = "[(0, Status ''200 OK''), (0, Status ''503 Service Unavailable'')]"
       and res = ?err and ep' = "[?d]" and tr' = ?tr,
     THEN conjunct2, THEN conjunct2, THEN conjunct2, THEN conjunct2, THEN conjunct2,
     rule_format, OF dp]
  note c = ping_part [THEN conjunct1]
  from a b c pods ping pass show ?thesis by simp
qed

text \<open>
  With no name given and a first listing that fails, \<open>PodsStarted\<close> returns the listing
  error although its map is empty: the listing comes before the test of the map.
\<close>

theorem PodsStarted_empty_map_listing_error:
  "PodsStarted ''wordpress'' [] [Inl (Ext ''connection refused'')] =
     Some (Some (Wrap (Ext ''connection refused'') ''error while listing all pods''), [],
           [ListPods ''wordpress'']) \<and>
   \<not> ((Some (Wrap (Ext ''connection refused'') ''error while listing all pods'') = None) =
       (([] :: (string \<times> int) list) = []))"
  by (simp add: PodsStarted_def podUp_init_def)
end
